theory Spec2Isabelle
  imports Complex_Main
begin

section \<open>Errors\<close>

text \<open>
  Every \<^verbatim>\<open>throw\<close> of \<^verbatim>\<open>GLTFLODUtils.cpp\<close>, and every exception or failed precondition of
  the library calls it makes, is a value of this type. The constructors are named after
  the place that raises:
  \<^item> \<open>StoiInvalidArgument\<close>, \<open>StoiOutOfRange\<close>: \<^verbatim>\<open>std::stoi\<close>;
  \<^item> \<open>KeyEmpty\<close>, \<open>KeyExists\<close>, \<open>KeyNotFound\<close>: the \<^verbatim>\<open>GLTFException\<close>s of
    \<^verbatim>\<open>IndexedContainer\<close> (Append, Get, GetIndex, Replace);
  \<^item> \<open>MapAtOutOfRange\<close>: \<^verbatim>\<open>LODMap::at\<close> on a missing key;
  \<^item> \<open>JsonParseError\<close>: \<^verbatim>\<open>RapidJsonUtils::CreateDocumentFromString\<close>;
  \<^item> \<open>JsonAssert\<close>: a failed \<^verbatim>\<open>RAPIDJSON_ASSERT\<close> (member access on a non-object,
    \<^verbatim>\<open>GetInt\<close> on a non-int, iteration over a non-array);
  \<^item> \<open>UnsupportedEntityKind\<close>: line 99, "LODs can only be applied to materials or nodes.";
  \<^item> \<open>TopologyMismatch\<close>: line 149, "Primary Scene either empty or does not match scene
    node count of LOD gltf";
  \<^item> \<open>EmptyInput\<close>: line 370, "MergeDocumentsAsLODs passed empty vector";
  \<^item> \<open>UndefinedBehaviour\<close>: \<^verbatim>\<open>nodes[0]\<close> on an empty vector (line 133), signed overflow
    of the \<^verbatim>\<open>int\<close> sum of line 344.
\<close>

datatype error =
    StoiInvalidArgument
  | StoiOutOfRange
  | KeyEmpty
  | KeyExists
  | KeyNotFound
  | MapAtOutOfRange
  | JsonParseError
  | JsonAssert
  | UnsupportedEntityKind
  | TopologyMismatch
  | EmptyInput
  | UndefinedBehaviour

text \<open>Sequencing of fallible steps: the first error ends the computation, as an exception does.\<close>

definition thenE :: "error + 'a \<Rightarrow> ('a \<Rightarrow> error + 'b) \<Rightarrow> error + 'b" where
  "thenE m f = (case m of Inl e \<Rightarrow> Inl e | Inr x \<Rightarrow> f x)"

fun mapE :: "('a \<Rightarrow> error + 'b) \<Rightarrow> 'a list \<Rightarrow> error + 'b list" where
  "mapE f [] = Inr []"
| "mapE f (x # xs) = thenE (f x) (\<lambda>y. thenE (mapE f xs) (\<lambda>ys. Inr (y # ys)))"

section \<open>Identifiers: \<^verbatim>\<open>std::stoi\<close>, \<^verbatim>\<open>std::to_string\<close> and \<^verbatim>\<open>AddIndexOffset\<close>\<close>

text \<open>
  \<^verbatim>\<open>std::stoi(str)\<close> is \<^verbatim>\<open>strtol\<close> in base 10 with a range check: it skips leading white
  space, reads one optional sign, then the longest run of decimal digits, and ignores
  whatever follows. No digit: \<^verbatim>\<open>std::invalid_argument\<close>. A value outside \<^verbatim>\<open>int\<close> (32 bits):
  \<^verbatim>\<open>std::out_of_range\<close>.
\<close>

definition isspace :: "char \<Rightarrow> bool" where
  "isspace c \<longleftrightarrow> c \<in> set [CHR 0x20, CHR 0x09, CHR 0x0A, CHR 0x0B, CHR 0x0C, CHR 0x0D]"

definition isdigit :: "char \<Rightarrow> bool" where
  "isdigit c \<longleftrightarrow> (48::nat) \<le> of_char c \<and> of_char c \<le> (57::nat)"

definition digit_of :: "char \<Rightarrow> nat" where
  "digit_of c = of_char c - 48"

definition digits_val :: "string \<Rightarrow> nat" where
  "digits_val ds = foldl (\<lambda>a c. a * 10 + digit_of c) 0 ds"

definition INT_MIN :: int where "INT_MIN = - (2 ^ 31)"
definition INT_MAX :: int where "INT_MAX = 2 ^ 31 - 1"

definition skip_sign :: "string \<Rightarrow> string" where
  "skip_sign s = (case s of [] \<Rightarrow> [] | c # r \<Rightarrow> if c = CHR ''-'' \<or> c = CHR ''+'' then r else s)"

definition is_negative :: "string \<Rightarrow> bool" where
  "is_negative s = (case s of [] \<Rightarrow> False | c # r \<Rightarrow> c = CHR ''-'')"

definition stoi :: "string \<Rightarrow> error + int" where
  "stoi str =
     (let s = dropWhile isspace str;
          ds = takeWhile isdigit (skip_sign s);
          v = (if is_negative s then - int (digits_val ds) else int (digits_val ds))
      in if ds = [] then Inl StoiInvalidArgument
         else if v < INT_MIN \<or> INT_MAX < v then Inl StoiOutOfRange
         else Inr v)"

text \<open>\<^verbatim>\<open>std::to_string\<close> of an unsigned value, and of an \<^verbatim>\<open>int\<close>.\<close>

definition digit_char :: "nat \<Rightarrow> char" where
  "digit_char d = ''0123456789'' ! d"

fun to_string :: "nat \<Rightarrow> string" where
  "to_string n =
     (if n < 10 then [digit_char n]
      else to_string (n div 10) @ [digit_char (n mod 10)])"

declare to_string.simps [simp del]

definition to_string_int :: "int \<Rightarrow> string" where
  "to_string_int i = (if i < 0 then CHR ''-'' # to_string (nat (- i)) else to_string (nat i))"

text \<open>
  Line 31: \<^verbatim>\<open>id = (id.empty()) ? "" : std::to_string(std::stoi(id) + offset)\<close>. The sum of an
  \<^verbatim>\<open>int\<close> and a \<^verbatim>\<open>size_t\<close> is computed in \<^verbatim>\<open>size_t\<close> (64 bits, unsigned): it wraps. The C++
  function updates its argument in place; the model returns the new identifier.
\<close>

definition SIZE_WIDTH :: nat where "SIZE_WIDTH = 64"

definition size_t_of :: "int \<Rightarrow> nat" where
  "size_t_of i = nat (i mod 2 ^ SIZE_WIDTH)"

definition AddIndexOffset :: "string \<Rightarrow> nat \<Rightarrow> error + string" where
  "AddIndexOffset ident offset =
     (if ident = [] then Inr []
      else thenE (stoi ident) (\<lambda>v. Inr (to_string (size_t_of (v + int offset)))))"

section \<open>JSON values and the rapidjson calls\<close>

text \<open>
  The DOM of rapidjson. A number that is an integer is \<open>JInt\<close> whatever its width;
  \<^verbatim>\<open>IsInt\<close> holds when it fits 32 bits. The screen coverage values are \<^verbatim>\<open>double\<close>s that the
  code only copies, never computes with: they are kept as \<open>real\<close>. Members of an object are
  kept in order, and a name may occur twice, as in rapidjson.
\<close>

datatype json =
    JNull
  | JBool bool
  | JInt int
  | JDouble real
  | JString string
  | JArray "json list"
  | JObject "(string \<times> json) list"

text \<open>
  The text side of rapidjson is not part of this repository; the functions that read or
  write JSON text take it as a parameter:
  \<^item> \<open>CreateDocumentFromString\<close>: \<^verbatim>\<open>RapidJsonUtils::CreateDocumentFromString\<close>, \<open>None\<close> when it
    throws on malformed text;
  \<^item> \<open>DocumentParse d s\<close>: the value of a document after \<^verbatim>\<open>d.Parse(s)\<close>;
  \<^item> \<open>WriterGetString\<close>: \<^verbatim>\<open>doc.Accept(writer)\<close> followed by \<^verbatim>\<open>buffer.GetString()\<close>.
\<close>

record rapidjson =
  CreateDocumentFromString :: "string \<Rightarrow> json option"
  DocumentParse :: "json \<Rightarrow> string \<Rightarrow> json"
  WriterGetString :: "json \<Rightarrow> string"

definition FindMember :: "json \<Rightarrow> string \<Rightarrow> error + json option" where
  "FindMember j k = (case j of JObject ms \<Rightarrow> Inr (map_of ms k) | _ \<Rightarrow> Inl JsonAssert)"

definition HasMember :: "json \<Rightarrow> string \<Rightarrow> error + bool" where
  "HasMember j k = thenE (FindMember j k) (\<lambda>r. Inr (r \<noteq> None))"

text \<open>\<^verbatim>\<open>json[k]\<close>, read.\<close>

definition GetMember :: "json \<Rightarrow> string \<Rightarrow> error + json" where
  "GetMember j k =
     thenE (FindMember j k) (\<lambda>r. case r of None \<Rightarrow> Inl JsonAssert | Some v \<Rightarrow> Inr v)"

definition GetInt :: "json \<Rightarrow> error + int" where
  "GetInt j =
     (case j of
        JInt i \<Rightarrow> if INT_MIN \<le> i \<and> i \<le> INT_MAX then Inr i else Inl JsonAssert
      | _ \<Rightarrow> Inl JsonAssert)"

text \<open>\<^verbatim>\<open>json[k] = v\<close>: the first member named \<open>k\<close> gets the value.\<close>

fun assign_first :: "(string \<times> json) list \<Rightarrow> string \<Rightarrow> json \<Rightarrow> (string \<times> json) list" where
  "assign_first [] k v = []"
| "assign_first ((k', w) # ms) k v =
     (if k' = k then (k', v) # ms else (k', w) # assign_first ms k v)"

definition SetMember :: "json \<Rightarrow> string \<Rightarrow> json \<Rightarrow> json" where
  "SetMember j k v = (case j of JObject ms \<Rightarrow> JObject (assign_first ms k v) | _ \<Rightarrow> j)"

text \<open>\<^verbatim>\<open>AddMember\<close> appends; it does not look for the name.\<close>

definition AddMember :: "json \<Rightarrow> string \<Rightarrow> json \<Rightarrow> error + json" where
  "AddMember j k v = (case j of JObject ms \<Rightarrow> Inr (JObject (ms @ [(k, v)])) | _ \<Rightarrow> Inl JsonAssert)"

text \<open>Lines 34-44.\<close>

definition AddIndexOffsetPacked :: "json \<Rightarrow> string \<Rightarrow> nat \<Rightarrow> error + json" where
  "AddIndexOffsetPacked json textureId offset =
     thenE (HasMember json textureId) (\<lambda>h.
       if \<not> h then Inr json
       else thenE (GetMember json textureId) (\<lambda>t.
         thenE (HasMember t ''index'') (\<lambda>h'.
           if \<not> h' then Inr json
           else thenE (GetMember t ''index'') (\<lambda>ix.
             thenE (GetInt ix) (\<lambda>index.
               Inr (SetMember json textureId
                     (SetMember t ''index'' (JInt (int (size_t_of (index + int offset)))))))))))"

section \<open>Entities, containers and the document\<close>

text \<open>
  The entity types are those of the glTF SDK; a record keeps the fields that
  \<^verbatim>\<open>GLTFLODUtils.cpp\<close> reads or writes (every other field is copied as it is). Three field
  names are changed, since a field name is a constant of the theory: \<^verbatim>\<open>id\<close> is \<open>id'\<close>,
  \<^verbatim>\<open>Image::bufferViewId\<close> is \<open>image_bufferViewId\<close> and \<^verbatim>\<open>Scene::nodes\<close> is \<open>scene_nodes\<close>. The
  nested members \<^verbatim>\<open>normalTexture.id\<close>, \<^verbatim>\<open>metallicRoughness.baseColorTextureId\<close>, ... of a
  material are flattened with an underscore.
\<close>

record glTFProperty =
  extensions :: "string \<rightharpoonup> string"
  extras :: string

record glTFChildOfRootProperty = glTFProperty +
  id' :: string
  name :: string

type_synonym Buffer = glTFChildOfRootProperty
type_synonym Sampler = glTFChildOfRootProperty

record BufferView = glTFChildOfRootProperty +
  bufferId :: string

record Accessor = glTFChildOfRootProperty +
  bufferViewId :: string

record Image = glTFChildOfRootProperty +
  image_bufferViewId :: string

record Texture = glTFChildOfRootProperty +
  samplerId :: string
  imageId :: string

record Material = glTFChildOfRootProperty +
  normalTexture_id :: string
  occlusionTexture_id :: string
  emissiveTextureId :: string
  metallicRoughness_baseColorTextureId :: string
  metallicRoughness_metallicRoughnessTextureId :: string
  specularGlossiness_diffuseTextureId :: string
  specularGlossiness_specularGlossinessTextureId :: string

record MeshPrimitive = glTFProperty +
  positionsAccessorId :: string
  normalsAccessorId :: string
  indicesAccessorId :: string
  uv0AccessorId :: string
  uv1AccessorId :: string
  color0AccessorId :: string
  materialId :: string

record Mesh = glTFChildOfRootProperty +
  primitives :: "MeshPrimitive list"

record Node = glTFChildOfRootProperty +
  meshId :: string
  children :: "string list"

record Scene = glTFChildOfRootProperty +
  scene_nodes :: "string list"

record GLTFDocument =
  buffers :: "Buffer list"
  samplers :: "Sampler list"
  bufferViews :: "BufferView list"
  accessors :: "Accessor list"
  images :: "Image list"
  textures :: "Texture list"
  materials :: "Material list"
  meshes :: "Mesh list"
  nodes :: "Node list"
  scenes :: "Scene list"
  extensionsUsed :: "string set"

text \<open>
  \<^verbatim>\<open>IndexedContainer<T>\<close> of the glTF SDK (section 6 of the spec: ordered enumeration,
  get-by-identifier, append and replace-in-place): the elements in order, found by their
  \<^verbatim>\<open>id\<close>. \<^verbatim>\<open>Append\<close> refuses an empty key and a key that is present, so the ids of a
  container are non-empty and distinct; \<^verbatim>\<open>Get\<close>, \<^verbatim>\<open>GetIndex\<close> and \<^verbatim>\<open>Replace\<close> throw on a key
  that is not present, \<^verbatim>\<open>GetIndex\<close> and \<^verbatim>\<open>Replace\<close> on the empty key too. The model is the
  list of elements (\<^verbatim>\<open>Elements()\<close>, with \<^verbatim>\<open>Size()\<close> its length); a lookup takes the first
  element with the key.
\<close>

definition Has :: "'a glTFChildOfRootProperty_scheme list \<Rightarrow> string \<Rightarrow> bool" where
  "Has c key \<longleftrightarrow> (\<exists>e \<in> set c. id' e = key)"

definition Get :: "'a glTFChildOfRootProperty_scheme list \<Rightarrow> string \<Rightarrow> error + 'a glTFChildOfRootProperty_scheme" where
  "Get c key = (case find (\<lambda>e. id' e = key) c of None \<Rightarrow> Inl KeyNotFound | Some e \<Rightarrow> Inr e)"

fun first_index :: "('a \<Rightarrow> bool) \<Rightarrow> 'a list \<Rightarrow> nat option" where
  "first_index P [] = None"
| "first_index P (x # xs) =
     (if P x then Some 0 else map_option Suc (first_index P xs))"

definition GetIndex :: "'a glTFChildOfRootProperty_scheme list \<Rightarrow> string \<Rightarrow> error + nat" where
  "GetIndex c key =
     (if key = [] then Inl KeyEmpty
      else case first_index (\<lambda>e. id' e = key) c of None \<Rightarrow> Inl KeyNotFound | Some i \<Rightarrow> Inr i)"

definition Append :: "'a glTFChildOfRootProperty_scheme list \<Rightarrow> 'a glTFChildOfRootProperty_scheme \<Rightarrow> error + 'a glTFChildOfRootProperty_scheme list" where
  "Append c e =
     (if id' e = [] then Inl KeyEmpty
      else if Has c (id' e) then Inl KeyExists
      else Inr (c @ [e]))"

definition Replace :: "'a glTFChildOfRootProperty_scheme list \<Rightarrow> 'a glTFChildOfRootProperty_scheme \<Rightarrow> error + 'a glTFChildOfRootProperty_scheme list" where
  "Replace c e = thenE (GetIndex c (id' e)) (\<lambda>i. Inr (c[i := e]))"

section \<open>The LOD extension: constants, registry, parsing and serialising\<close>

definition EXTENSION_MSFT_LOD :: string where
  "EXTENSION_MSFT_LOD = ''MSFT_lod''"

definition MSFT_LOD_IDS_KEY :: string where
  "MSFT_LOD_IDS_KEY = ''ids''"

text \<open>
  Modelled from the spec: the names of the two vendor extensions whose payloads are
  patched (section 6: the single-texture-reference extension of a texture, the
  packed-texture extension of a material). They are declared in
  \<^verbatim>\<open>GLTFTextureCompressionUtils.h\<close> and \<^verbatim>\<open>GLTFTexturePackingUtils.h\<close>, which are not among
  the sources; the values are those of the comments of lines 221 and 267. No theorem
  below depends on these values.
\<close>

definition EXTENSION_MSFT_TEXTURE_DDS :: string where
  "EXTENSION_MSFT_TEXTURE_DDS = ''MSFT_texture_dds''"

definition EXTENSION_MSFT_PACKING_ORM :: string where
  "EXTENSION_MSFT_PACKING_ORM = ''MSFT_packing_occlusionRoughnessMetallic''"

text \<open>
  \<^verbatim>\<open>LODMap\<close> is an \<^verbatim>\<open>unordered_map\<close> from a node id to a shared pointer to its chain. Every
  map that reaches the code below is built by \<open>ParseDocumentNodeLODs\<close>, which allocates one
  chain per key: no pointer is null and no two keys share a chain. The model is an
  association list (the order of the list stands for the unspecified iteration order):
  \<open>map_of\<close> is the lookup, \<open>LODMap_emplace\<close> adds a key that is absent, \<open>LODMap_at\<close> throws on a
  missing key, and \<open>emplace_back\<close> is \<^verbatim>\<open>lods.at(k)->emplace_back(v)\<close>.
\<close>

type_synonym LODMap = "(string \<times> string list) list"

definition LODMap_emplace :: "LODMap \<Rightarrow> string \<Rightarrow> string list \<Rightarrow> LODMap" where
  "LODMap_emplace m k chain = (if map_of m k = None then m @ [(k, chain)] else m)"

definition LODMap_at :: "LODMap \<Rightarrow> string \<Rightarrow> error + string list" where
  "LODMap_at m k = (case map_of m k of None \<Rightarrow> Inl MapAtOutOfRange | Some chain \<Rightarrow> Inr chain)"

definition emplace_back :: "LODMap \<Rightarrow> string \<Rightarrow> string \<Rightarrow> LODMap" where
  "emplace_back m k v = map (\<lambda>(k', chain). if k' = k then (k', chain @ [v]) else (k', chain)) m"

text \<open>Lines 46-66.\<close>

definition ParseExtensionMSFTLod :: "rapidjson \<Rightarrow> Node \<Rightarrow> error + string list" where
  "ParseExtensionMSFTLod rj node =
     (case extensions node EXTENSION_MSFT_LOD of
        None \<Rightarrow> Inr []
      | Some payload \<Rightarrow>
          (case CreateDocumentFromString rj payload of
             None \<Rightarrow> Inl JsonParseError
           | Some json \<Rightarrow>
               thenE (FindMember json MSFT_LOD_IDS_KEY) (\<lambda>idIt.
                 case idIt of
                   None \<Rightarrow> Inr []
                 | Some (JArray xs) \<Rightarrow> mapE (\<lambda>a. thenE (GetInt a) (\<lambda>i. Inr (to_string_int i))) xs
                 | Some _ \<Rightarrow> Inl JsonAssert)))"

text \<open>
  Lines 68-109. The template parameter \<^verbatim>\<open>T\<close> is the entity kind; the first parameter of the
  C++ function is unused. The result is the text of the object \<^verbatim>\<open>{"ids": [...]}\<close>.
\<close>

datatype entity_kind = KMaterial | KNode | KOther

definition ids_object :: "nat list \<Rightarrow> json" where
  "ids_object lodIndices = JObject [(MSFT_LOD_IDS_KEY, JArray (map (\<lambda>i. JInt (int i)) lodIndices))]"

definition SerializeExtensionMSFTLod ::
    "rapidjson \<Rightarrow> entity_kind \<Rightarrow> string list \<Rightarrow> GLTFDocument \<Rightarrow> error + string" where
  "SerializeExtensionMSFTLod rj T lods gltfDocument =
     (if lods = [] then Inr []
      else thenE
        (case T of
           KMaterial \<Rightarrow> mapE (GetIndex (materials gltfDocument)) lods
         | KNode \<Rightarrow> mapE (GetIndex (nodes gltfDocument)) lods
         | KOther \<Rightarrow> Inl UnsupportedEntityKind)
        (\<lambda>lodIndices. Inr (WriterGetString rj (ids_object lodIndices))))"

text \<open>Lines 354-364.\<close>

fun ParseDocumentNodeLODs_loop :: "rapidjson \<Rightarrow> Node list \<Rightarrow> LODMap \<Rightarrow> error + LODMap" where
  "ParseDocumentNodeLODs_loop rj [] lodMap = Inr lodMap"
| "ParseDocumentNodeLODs_loop rj (node # rest) lodMap =
     thenE (ParseExtensionMSFTLod rj node) (\<lambda>chain.
       ParseDocumentNodeLODs_loop rj rest (LODMap_emplace lodMap (id' node) chain))"

definition ParseDocumentNodeLODs :: "rapidjson \<Rightarrow> GLTFDocument \<Rightarrow> error + LODMap" where
  "ParseDocumentNodeLODs rj doc = ParseDocumentNodeLODs_loop rj (nodes doc) []"

text \<open>Lines 440-449; the result is cast to \<^verbatim>\<open>uint32_t\<close>.\<close>

fun NumberOfNodeLODLevels_loop :: "LODMap \<Rightarrow> Node list \<Rightarrow> nat \<Rightarrow> error + nat" where
  "NumberOfNodeLODLevels_loop lods [] maxLODLevel = Inr maxLODLevel"
| "NumberOfNodeLODLevels_loop lods (node # rest) maxLODLevel =
     thenE (LODMap_at lods (id' node)) (\<lambda>chain.
       NumberOfNodeLODLevels_loop lods rest (max maxLODLevel (length chain)))"

definition NumberOfNodeLODLevels :: "GLTFDocument \<Rightarrow> LODMap \<Rightarrow> error + nat" where
  "NumberOfNodeLODLevels doc lods =
     thenE (NumberOfNodeLODLevels_loop lods (nodes doc) 0) (\<lambda>maxLODLevel.
       Inr (maxLODLevel mod 2 ^ 32))"

text \<open>
  The number of LOD levels of a document, as a caller of the two public functions gets
  it: the registry is derived from the document by \<open>ParseDocumentNodeLODs\<close> and passed to
  \<open>NumberOfNodeLODLevels\<close>.
\<close>

definition countLODLevels :: "rapidjson \<Rightarrow> GLTFDocument \<Rightarrow> error + nat" where
  "countLODLevels rj doc = thenE (ParseDocumentNodeLODs rj doc) (NumberOfNodeLODLevels doc)"

section \<open>One merge step: \<^verbatim>\<open>AddGLTFNodeLOD\<close>\<close>

subsection \<open>Lines 115-150: the scenes of the two documents\<close>

text \<open>
  The condition of lines 127-129. \<^verbatim>\<open>std::equal\<close> is reached only with two sequences of the
  same length.
\<close>

definition rootNodesMatch :: "Scene \<Rightarrow> Scene \<Rightarrow> bool" where
  "rootNodesMatch primaryScene lodScene \<longleftrightarrow>
     length (scene_nodes primaryScene) = length (scene_nodes lodScene) \<and>
     (length (scene_nodes lodScene) = 1 \<or> scene_nodes primaryScene = scene_nodes lodScene)"

text \<open>
  The loop of lines 124-141 over the scenes of the two documents, taken in pairs (the
  loop runs only when there are as many of each). Its state is \<^verbatim>\<open>sceneNodeMatch\<close> and
  \<^verbatim>\<open>MaxLODLevel\<close>; a pair that does not match ends the loop (\<^verbatim>\<open>break\<close>). \<^verbatim>\<open>nodes[0]\<close> of a
  scene with no root node is read out of range.
\<close>

fun matchScenes :: "Node list \<Rightarrow> LODMap \<Rightarrow> (Scene \<times> Scene) list \<Rightarrow> bool \<times> nat \<Rightarrow> error + bool \<times> nat" where
  "matchScenes gltfLodNodes primaryLods [] st = Inr st"
| "matchScenes gltfLodNodes primaryLods ((primaryScene, lodScene) # rest) (sceneNodeMatch, MaxLODLevel) =
     (if rootNodesMatch primaryScene lodScene
      then
        (case scene_nodes primaryScene of
           [] \<Rightarrow> Inl UndefinedBehaviour
         | rootId # _ \<Rightarrow>
             thenE (Get gltfLodNodes rootId) (\<lambda>primaryRootNode.
               thenE (LODMap_at primaryLods (id' primaryRootNode)) (\<lambda>chain.
                 matchScenes gltfLodNodes primaryLods rest (True, max MaxLODLevel (length chain)))))
      else Inr (False, MaxLODLevel))"

text \<open>Lines 118-150: the value is \<^verbatim>\<open>MaxLODLevel\<close> after line 144.\<close>

definition checkScenes :: "GLTFDocument \<Rightarrow> LODMap \<Rightarrow> GLTFDocument \<Rightarrow> error + nat" where
  "checkScenes primary primaryLods lod =
     (let primaryScenes = scenes primary; lodScenes = scenes lod in
      thenE
        (if length primaryScenes = length lodScenes
         then matchScenes (nodes primary) primaryLods (zip primaryScenes lodScenes) (False, 0)
         else Inr (False, 0))
        (\<lambda>(sceneNodeMatch, MaxLODLevel).
           if \<not> sceneNodeMatch \<or> primaryScenes = [] then Inl TopologyMismatch
           else Inr (MaxLODLevel + 1)))"

subsection \<open>Lines 152-334: the collections\<close>

text \<open>
  Each loop of the form \<^verbatim>\<open>for (auto x : lod.xs) { ...; gltfLod.xs.Append(std::move(x)); }\<close>:
  \<open>f\<close> is the body before the \<^verbatim>\<open>Append\<close>.
\<close>

fun AppendAll ::
    "('a glTFChildOfRootProperty_scheme \<Rightarrow> error + 'a glTFChildOfRootProperty_scheme) \<Rightarrow>
     'a glTFChildOfRootProperty_scheme list \<Rightarrow> 'a glTFChildOfRootProperty_scheme list \<Rightarrow>
     error + 'a glTFChildOfRootProperty_scheme list" where
  "AppendAll f c [] = Inr c"
| "AppendAll f c (x # xs) =
     thenE (f x) (\<lambda>y. thenE (Append c y) (\<lambda>c'. AppendAll f c' xs))"

text \<open>Lines 162 and 169.\<close>

definition offsetId ::
    "nat \<Rightarrow> 'a glTFChildOfRootProperty_scheme \<Rightarrow> error + 'a glTFChildOfRootProperty_scheme" where
  "offsetId offset x = thenE (AddIndexOffset (id' x) offset) (\<lambda>i. Inr (x\<lparr>id' := i\<rparr>))"

text \<open>Lines 189-190.\<close>

definition offsetBufferView :: "nat \<Rightarrow> nat \<Rightarrow> BufferView \<Rightarrow> error + BufferView" where
  "offsetBufferView bufferViewsOffset buffersOffset bufferView =
     thenE (AddIndexOffset (id' bufferView) bufferViewsOffset) (\<lambda>i.
     thenE (AddIndexOffset (bufferId bufferView) buffersOffset) (\<lambda>b.
       Inr (bufferView\<lparr>id' := i, bufferId := b\<rparr>)))"

text \<open>Lines 198-199.\<close>

definition offsetAccessor :: "nat \<Rightarrow> nat \<Rightarrow> Accessor \<Rightarrow> error + Accessor" where
  "offsetAccessor accessorOffset bufferViewsOffset accessor =
     thenE (AddIndexOffset (id' accessor) accessorOffset) (\<lambda>i.
     thenE (AddIndexOffset (bufferViewId accessor) bufferViewsOffset) (\<lambda>b.
       Inr (accessor\<lparr>id' := i, bufferViewId := b\<rparr>)))"

text \<open>Lines 208-209.\<close>

definition offsetImage :: "nat \<Rightarrow> nat \<Rightarrow> Image \<Rightarrow> error + Image" where
  "offsetImage imageOffset bufferViewsOffset img =
     thenE (AddIndexOffset (id' img) imageOffset) (\<lambda>i.
     thenE (AddIndexOffset (image_bufferViewId img) bufferViewsOffset) (\<lambda>b.
       Inr (img\<lparr>id' := i, image_bufferViewId := b\<rparr>)))"

text \<open>Lines 225-237: the payload of the \<^verbatim>\<open>MSFT_texture_dds\<close> extension.\<close>

definition patchDds :: "rapidjson \<Rightarrow> string \<Rightarrow> nat \<Rightarrow> error + string" where
  "patchDds rj payload imageOffset =
     (case CreateDocumentFromString rj payload of
        None \<Rightarrow> Inl JsonParseError
      | Some ddsJson \<Rightarrow>
          thenE (HasMember ddsJson ''source'') (\<lambda>h.
            if h then
              thenE (GetMember ddsJson ''source'') (\<lambda>src.
                thenE (GetInt src) (\<lambda>index.
                  Inr (WriterGetString rj
                        (SetMember ddsJson ''source'' (JInt (int (size_t_of (index + int imageOffset))))))))
            else Inr (WriterGetString rj ddsJson)))"

text \<open>
  Lines 222-224 and 268-270: an extension that is present with a non-empty payload is
  rewritten by \<open>patch\<close>.
\<close>

definition patchExtension ::
    "(string \<rightharpoonup> string) \<Rightarrow> string \<Rightarrow> (string \<Rightarrow> error + string) \<Rightarrow> error + (string \<rightharpoonup> string)" where
  "patchExtension exts key patch =
     (case exts key of
        None \<Rightarrow> Inr exts
      | Some payload \<Rightarrow>
          if payload = [] then Inr exts
          else thenE (patch payload) (\<lambda>p. Inr (exts(key \<mapsto> p))))"

text \<open>Lines 217-238.\<close>

definition offsetTexture :: "rapidjson \<Rightarrow> nat \<Rightarrow> nat \<Rightarrow> nat \<Rightarrow> Texture \<Rightarrow> error + Texture" where
  "offsetTexture rj texturesOffset samplersOffset imageOffset texture =
     thenE (AddIndexOffset (id' texture) texturesOffset) (\<lambda>i.
     thenE (AddIndexOffset (samplerId texture) samplersOffset) (\<lambda>s.
     thenE (AddIndexOffset (imageId texture) imageOffset) (\<lambda>im.
     thenE (patchExtension (extensions texture) EXTENSION_MSFT_TEXTURE_DDS
              (\<lambda>payload. patchDds rj payload imageOffset)) (\<lambda>exts.
       Inr (texture\<lparr>extensions := exts, id' := i, samplerId := s, imageId := im\<rparr>)))))"

text \<open>Lines 271-281: the payload of the \<^verbatim>\<open>MSFT_packing_occlusionRoughnessMetallic\<close> extension.\<close>

definition patchOrm :: "rapidjson \<Rightarrow> string \<Rightarrow> nat \<Rightarrow> error + string" where
  "patchOrm rj payload texturesOffset =
     (case CreateDocumentFromString rj payload of
        None \<Rightarrow> Inl JsonParseError
      | Some ormJson \<Rightarrow>
          thenE (AddIndexOffsetPacked ormJson ''occlusionRoughnessMetallicTexture'' texturesOffset) (\<lambda>j1.
          thenE (AddIndexOffsetPacked j1 ''roughnessMetallicOcclusionTexture'' texturesOffset) (\<lambda>j2.
          thenE (AddIndexOffsetPacked j2 ''normalTexture'' texturesOffset) (\<lambda>j3.
            Inr (WriterGetString rj j3)))))"

text \<open>Lines 254-282.\<close>

definition offsetMaterial :: "rapidjson \<Rightarrow> string \<Rightarrow> nat \<Rightarrow> nat \<Rightarrow> Material \<Rightarrow> error + Material" where
  "offsetMaterial rj nodeLodLabel materialOffset texturesOffset material =
     thenE (AddIndexOffset (id' material) materialOffset) (\<lambda>i.
     thenE (AddIndexOffset (normalTexture_id material) texturesOffset) (\<lambda>t1.
     thenE (AddIndexOffset (occlusionTexture_id material) texturesOffset) (\<lambda>t2.
     thenE (AddIndexOffset (emissiveTextureId material) texturesOffset) (\<lambda>t3.
     thenE (AddIndexOffset (metallicRoughness_baseColorTextureId material) texturesOffset) (\<lambda>t4.
     thenE (AddIndexOffset (metallicRoughness_metallicRoughnessTextureId material) texturesOffset) (\<lambda>t5.
     thenE (AddIndexOffset (specularGlossiness_diffuseTextureId material) texturesOffset) (\<lambda>t6.
     thenE (AddIndexOffset (specularGlossiness_specularGlossinessTextureId material) texturesOffset) (\<lambda>t7.
     thenE (patchExtension (extensions material) EXTENSION_MSFT_PACKING_ORM
              (\<lambda>payload. patchOrm rj payload texturesOffset)) (\<lambda>exts.
       Inr (material\<lparr>extensions := exts, id' := i, name := name material @ nodeLodLabel,
              normalTexture_id := t1, occlusionTexture_id := t2, emissiveTextureId := t3,
              metallicRoughness_baseColorTextureId := t4,
              metallicRoughness_metallicRoughnessTextureId := t5,
              specularGlossiness_diffuseTextureId := t6,
              specularGlossiness_specularGlossinessTextureId := t7\<rparr>))))))))))"

text \<open>Lines 301-308.\<close>

definition offsetPrimitive :: "nat \<Rightarrow> nat \<Rightarrow> MeshPrimitive \<Rightarrow> error + MeshPrimitive" where
  "offsetPrimitive accessorOffset materialOffset p =
     thenE (AddIndexOffset (positionsAccessorId p) accessorOffset) (\<lambda>a1.
     thenE (AddIndexOffset (normalsAccessorId p) accessorOffset) (\<lambda>a2.
     thenE (AddIndexOffset (indicesAccessorId p) accessorOffset) (\<lambda>a3.
     thenE (AddIndexOffset (uv0AccessorId p) accessorOffset) (\<lambda>a4.
     thenE (AddIndexOffset (uv1AccessorId p) accessorOffset) (\<lambda>a5.
     thenE (AddIndexOffset (color0AccessorId p) accessorOffset) (\<lambda>a6.
     thenE (AddIndexOffset (materialId p) materialOffset) (\<lambda>m.
       Inr (p\<lparr>positionsAccessorId := a1, normalsAccessorId := a2, indicesAccessorId := a3,
               uv0AccessorId := a4, uv1AccessorId := a5, color0AccessorId := a6,
               materialId := m\<rparr>))))))))"

text \<open>Lines 296-309.\<close>

definition offsetMesh :: "string \<Rightarrow> nat \<Rightarrow> nat \<Rightarrow> nat \<Rightarrow> Mesh \<Rightarrow> error + Mesh" where
  "offsetMesh nodeLodLabel meshOffset accessorOffset materialOffset mesh =
     thenE (AddIndexOffset (id' mesh) meshOffset) (\<lambda>i.
     thenE (mapE (offsetPrimitive accessorOffset materialOffset) (primitives mesh)) (\<lambda>ps.
       Inr (mesh\<lparr>id' := i, name := name mesh @ nodeLodLabel, primitives := ps\<rparr>)))"

text \<open>Lines 323-330.\<close>

definition offsetNode :: "string \<Rightarrow> nat \<Rightarrow> nat \<Rightarrow> Node \<Rightarrow> error + Node" where
  "offsetNode nodeLodLabel nodeOffset meshOffset node =
     thenE (AddIndexOffset (id' node) nodeOffset) (\<lambda>i.
     thenE (AddIndexOffset (meshId node) meshOffset) (\<lambda>m.
     thenE (mapE (\<lambda>child. AddIndexOffset child nodeOffset) (children node)) (\<lambda>cs.
       Inr (node\<lparr>id' := i, name := name node @ nodeLodLabel, meshId := m, children := cs\<rparr>))))"

text \<open>
  Lines 152-334. \<open>gltfLod\<close> starts as the copy of \<open>primary\<close> (line 113); every offset is the
  size of a collection of \<open>gltfLod\<close> at the line that reads it.
\<close>

definition mergeCollections :: "rapidjson \<Rightarrow> GLTFDocument \<Rightarrow> GLTFDocument \<Rightarrow> nat \<Rightarrow> error + GLTFDocument" where
  "mergeCollections rj primary lod MaxLODLevel =
     (let gltfLod = primary;
          nodeLodLabel = ''_lod'' @ to_string MaxLODLevel;
          buffersOffset = length (buffers gltfLod);
          samplersOffset = length (samplers gltfLod)
      in
      thenE (AppendAll (offsetId buffersOffset) (buffers gltfLod) (buffers lod)) (\<lambda>bs.
      thenE (AppendAll (offsetId samplersOffset) (samplers gltfLod) (samplers lod)) (\<lambda>ss.
      let used = insert EXTENSION_MSFT_LOD (extensionsUsed gltfLod \<union> extensionsUsed lod);
          accessorOffset = length (accessors gltfLod);
          texturesOffset = length (textures gltfLod);
          bufferViewsOffset = length (bufferViews gltfLod)
      in
      thenE (AppendAll (offsetBufferView bufferViewsOffset buffersOffset)
               (bufferViews gltfLod) (bufferViews lod)) (\<lambda>bvs.
      thenE (AppendAll (offsetAccessor accessorOffset bufferViewsOffset)
               (accessors gltfLod) (accessors lod)) (\<lambda>acs.
      let imageOffset = length (images gltfLod) in
      thenE (AppendAll (offsetImage imageOffset bufferViewsOffset)
               (images gltfLod) (images lod)) (\<lambda>ims.
      thenE (AppendAll (offsetTexture rj texturesOffset samplersOffset imageOffset)
               (textures gltfLod) (textures lod)) (\<lambda>txs.
      let materialOffset = length (materials gltfLod) in
      thenE (AppendAll (offsetMaterial rj nodeLodLabel materialOffset texturesOffset)
               (materials gltfLod) (materials lod)) (\<lambda>mts.
      let meshOffset = length (meshes gltfLod) in
      thenE (AppendAll (offsetMesh nodeLodLabel meshOffset accessorOffset materialOffset)
               (meshes gltfLod) (meshes lod)) (\<lambda>mss.
      let nodeOffset = length (nodes gltfLod) in
      thenE (AppendAll (offsetNode nodeLodLabel nodeOffset meshOffset)
               (nodes gltfLod) (nodes lod)) (\<lambda>nds.
        Inr (gltfLod\<lparr>buffers := bs, samplers := ss, bufferViews := bvs, accessors := acs,
               images := ims, textures := txs, materials := mts, meshes := mss,
               nodes := nds, extensionsUsed := used\<rparr>)))))))))))"

subsection \<open>Lines 336-348: the registry\<close>

text \<open>
  Line 344: \<^verbatim>\<open>static_cast<int>(nodeOffset)\<close> keeps the low 32 bits, read as two's complement;
  the sum of two \<^verbatim>\<open>int\<close>s that does not fit an \<^verbatim>\<open>int\<close> is undefined.
\<close>

definition int_of_size_t :: "nat \<Rightarrow> int" where
  "int_of_size_t n = (let m = int n mod 2 ^ 32 in if m \<le> INT_MAX then m else m - 2 ^ 32)"

definition lodRootIdx :: "nat \<Rightarrow> string \<Rightarrow> error + int" where
  "lodRootIdx nodeOffset lodRootId =
     thenE (stoi lodRootId) (\<lambda>v.
       let r = v + int_of_size_t nodeOffset in
       if r < INT_MIN \<or> INT_MAX < r then Inl UndefinedBehaviour else Inr r)"

text \<open>
  The two nested loops of lines 338-348 visit the root nodes of the primary scenes in
  order, each with the root node of the other document at the same place; \<open>pairs\<close> is that
  sequence. The registry is updated in place, so an exception leaves it as it is at that
  point: the result is the exception, if any, and the registry.
\<close>

fun updateLods :: "Node list \<Rightarrow> nat \<Rightarrow> (string \<times> string) list \<Rightarrow> LODMap \<Rightarrow> error option \<times> LODMap" where
  "updateLods gltfLodNodes nodeOffset [] primaryLods = (None, primaryLods)"
| "updateLods gltfLodNodes nodeOffset ((idx, lodRootId) # rest) primaryLods =
     (case Get gltfLodNodes idx of
        Inl e \<Rightarrow> (Some e, primaryLods)
      | Inr nodeWithLods \<Rightarrow>
          (case lodRootIdx nodeOffset lodRootId of
             Inl e \<Rightarrow> (Some e, primaryLods)
           | Inr r \<Rightarrow>
               (case LODMap_at primaryLods (id' nodeWithLods) of
                  Inl e \<Rightarrow> (Some e, primaryLods)
                | Inr _ \<Rightarrow>
                    updateLods gltfLodNodes nodeOffset rest
                      (emplace_back primaryLods (id' nodeWithLods) (to_string_int r)))))"

definition rootPairs :: "Scene list \<Rightarrow> Scene list \<Rightarrow> (string \<times> string) list" where
  "rootPairs primaryScenes lodScenes =
     concat (map (\<lambda>(p, l). zip (scene_nodes p) (scene_nodes l)) (zip primaryScenes lodScenes))"

subsection \<open>Lines 111-351\<close>

text \<open>
  \<open>primary\<close> and \<open>lod\<close> are \<^verbatim>\<open>const\<close> references; \<open>primaryLods\<close> is a reference the function
  writes through. The result is the returned document or the exception, and the registry
  as the call leaves it.
\<close>

definition AddGLTFNodeLOD ::
    "rapidjson \<Rightarrow> GLTFDocument \<Rightarrow> LODMap \<Rightarrow> GLTFDocument \<Rightarrow> (error + GLTFDocument) \<times> LODMap" where
  "AddGLTFNodeLOD rj primary primaryLods lod =
     (case checkScenes primary primaryLods lod of
        Inl e \<Rightarrow> (Inl e, primaryLods)
      | Inr MaxLODLevel \<Rightarrow>
          (case mergeCollections rj primary lod MaxLODLevel of
             Inl e \<Rightarrow> (Inl e, primaryLods)
           | Inr gltfLod \<Rightarrow>
               (case updateLods (nodes gltfLod) (length (nodes primary))
                       (rootPairs (scenes primary) (scenes lod)) primaryLods of
                  (Some e, lods') \<Rightarrow> (Inl e, lods')
                | (None, lods') \<Rightarrow> (Inr gltfLod, lods'))))"

section \<open>Merging a list of documents: \<^verbatim>\<open>MergeDocumentsAsLODs\<close>\<close>

text \<open>
  Lines 376-379: \<^verbatim>\<open>gltfPrimary = AddGLTFNodeLOD(gltfPrimary, lods, docs[i])\<close>. One step of the
  loop on the state \<open>(gltfPrimary, lods)\<close>: the assignment is not reached when the call
  throws, so \<open>gltfPrimary\<close> keeps its value then.
\<close>

definition mergeStep ::
    "rapidjson \<Rightarrow> GLTFDocument \<times> LODMap \<Rightarrow> GLTFDocument \<Rightarrow> error option \<times> GLTFDocument \<times> LODMap" where
  "mergeStep rj st doc =
     (case AddGLTFNodeLOD rj (fst st) (snd st) doc of
        (Inl e, lods') \<Rightarrow> (Some e, fst st, lods')
      | (Inr gltfLod, lods') \<Rightarrow> (None, gltfLod, lods'))"

fun mergeLoop :: "rapidjson \<Rightarrow> GLTFDocument \<times> LODMap \<Rightarrow> GLTFDocument list \<Rightarrow> error + GLTFDocument \<times> LODMap" where
  "mergeLoop rj st [] = Inr st"
| "mergeLoop rj st (doc # rest) =
     (case mergeStep rj st doc of
        (Some e, _) \<Rightarrow> Inl e
      | (None, st') \<Rightarrow> mergeLoop rj st' rest)"

text \<open>\<^verbatim>\<open>node.extensions.emplace(key, value)\<close>: a key that is present keeps its value.\<close>

definition extensions_emplace :: "(string \<rightharpoonup> string) \<Rightarrow> string \<Rightarrow> string \<Rightarrow> (string \<rightharpoonup> string)" where
  "extensions_emplace exts key v = (if exts key = None then exts(key \<mapsto> v) else exts)"

text \<open>Lines 381-396, over the entries of the registry.\<close>

fun flushLods :: "rapidjson \<Rightarrow> GLTFDocument \<Rightarrow> LODMap \<Rightarrow> error + GLTFDocument" where
  "flushLods rj gltfPrimary [] = Inr gltfPrimary"
| "flushLods rj gltfPrimary ((key, chain) # rest) =
     (if chain = [] then flushLods rj gltfPrimary rest
      else
        thenE (Get (nodes gltfPrimary) key) (\<lambda>node.
        thenE (SerializeExtensionMSFTLod rj KNode chain gltfPrimary) (\<lambda>lodExtensionValue.
          if lodExtensionValue \<noteq> [] then
            thenE (Replace (nodes gltfPrimary)
                     (node\<lparr>extensions :=
                        extensions_emplace (extensions node) EXTENSION_MSFT_LOD lodExtensionValue\<rparr>))
              (\<lambda>ns. flushLods rj (gltfPrimary\<lparr>nodes := ns\<rparr>) rest)
          else flushLods rj gltfPrimary rest)))"

text \<open>Lines 366-399.\<close>

definition MergeDocumentsAsLODs :: "rapidjson \<Rightarrow> GLTFDocument list \<Rightarrow> error + GLTFDocument" where
  "MergeDocumentsAsLODs rj docs =
     (case docs of
        [] \<Rightarrow> Inl EmptyInput
      | gltfPrimary # rest \<Rightarrow>
          thenE (ParseDocumentNodeLODs rj gltfPrimary) (\<lambda>lods.
          thenE (mergeLoop rj (gltfPrimary, lods) rest) (\<lambda>(merged, lods').
            flushLods rj merged lods')))"

text \<open>Lines 416-431: the new \<^verbatim>\<open>extras\<close> of a root node.\<close>

definition screenCoverageExtras :: "rapidjson \<Rightarrow> real list \<Rightarrow> string \<Rightarrow> error + string" where
  "screenCoverageExtras rj screenCoveragePercentages oldExtras =
     (let empty_object = JObject [];
          extrasJson = (if oldExtras \<noteq> [] then DocumentParse rj empty_object oldExtras else empty_object);
          screenCoverageArray = JArray (map JDouble screenCoveragePercentages)
      in thenE (AddMember extrasJson ''MSFT_screencoverage'' screenCoverageArray) (\<lambda>j.
           Inr (WriterGetString rj j)))"

text \<open>
  Lines 410-435: the loops over the scenes and over the root nodes of each, on the nodes of
  \<open>merged\<close>; the scenes themselves are not written.
\<close>

fun screenCoverageLoop :: "rapidjson \<Rightarrow> real list \<Rightarrow> Node list \<Rightarrow> string list \<Rightarrow> error + Node list" where
  "screenCoverageLoop rj cov ns [] = Inr ns"
| "screenCoverageLoop rj cov ns (rootNodeIndex # rest) =
     thenE (Get ns rootNodeIndex) (\<lambda>primaryRootNode.
     thenE (screenCoverageExtras rj cov (extras primaryRootNode)) (\<lambda>e.
     thenE (Replace ns (primaryRootNode\<lparr>extras := e\<rparr>)) (\<lambda>ns'.
       screenCoverageLoop rj cov ns' rest)))"

text \<open>Lines 401-438: the overload with screen coverage percentages.\<close>

definition MergeDocumentsAsLODs_coverage ::
    "rapidjson \<Rightarrow> GLTFDocument list \<Rightarrow> real list \<Rightarrow> error + GLTFDocument" where
  "MergeDocumentsAsLODs_coverage rj docs screenCoveragePercentages =
     thenE (MergeDocumentsAsLODs rj docs) (\<lambda>merged.
       if length screenCoveragePercentages = 0 then Inr merged
       else
         thenE (screenCoverageLoop rj screenCoveragePercentages (nodes merged)
                  (concat (map scene_nodes (scenes merged)))) (\<lambda>ns.
           Inr (merged\<lparr>nodes := ns\<rparr>)))"

section \<open>Entity counts\<close>

text \<open>
  The sizes of the ten collections of a document, in the order Buffer, Sampler,
  BufferView, Accessor, Image, Texture, Material, Mesh, Node, Scene.
\<close>

definition entity_counts :: "GLTFDocument \<Rightarrow> nat list" where
  "entity_counts doc =
     [length (buffers doc), length (samplers doc), length (bufferViews doc),
      length (accessors doc), length (images doc), length (textures doc),
      length (materials doc), length (meshes doc), length (nodes doc), length (scenes doc)]"

section \<open>A JSON text writer and reader for the examples\<close>

text \<open>
  The theorems below hold for every reader and writer of JSON text. The examples need one:
  a writer of compact JSON (strings are written without escapes, a double with one
  decimal), and a reader that knows the payload of the LOD extension,
  \<^verbatim>\<open>{"ids":[1,2]}\<close>, and takes any other text as malformed.
\<close>

fun intercalate :: "string \<Rightarrow> string list \<Rightarrow> string" where
  "intercalate sep [] = []"
| "intercalate sep [x] = x"
| "intercalate sep (x # y # ys) = x @ sep @ intercalate sep (y # ys)"

definition quoted :: "string \<Rightarrow> string" where
  "quoted s = CHR 0x22 # s @ [CHR 0x22]"

fun json_text :: "json \<Rightarrow> string" where
  "json_text JNull = ''null''"
| "json_text (JBool b) = (if b then ''true'' else ''false'')"
| "json_text (JInt i) = to_string_int i"
| "json_text (JDouble r) =
     to_string_int \<lfloor>r\<rfloor> @ ''.'' @ to_string (nat \<lfloor>(r - of_int \<lfloor>r\<rfloor>) * 10\<rfloor>)"
| "json_text (JString s) = quoted s"
| "json_text (JArray xs) = ''['' @ intercalate '','' (map json_text xs) @ '']''"
| "json_text (JObject ms) =
     ''{'' @ intercalate '','' (map (\<lambda>m. quoted (fst m) @ '':'' @ json_text (snd m)) ms) @ ''}''"

fun split_on :: "char \<Rightarrow> string \<Rightarrow> string list" where
  "split_on c [] = [[]]"
| "split_on c (x # xs) =
     (if x = c then [] # split_on c xs
      else case split_on c xs of [] \<Rightarrow> [[x]] | p # ps \<Rightarrow> (x # p) # ps)"

definition ids_prefix :: string where
  \<open>ids_prefix = ''{"ids":[''\<close>

definition ids_suffix :: string where
  "ids_suffix = '']}''"

definition read_ids :: "string \<Rightarrow> json option" where
  "read_ids s =
     (if length ids_prefix + length ids_suffix \<le> length s \<and>
         take (length ids_prefix) s = ids_prefix \<and>
         drop (length s - length ids_suffix) s = ids_suffix
      then
        (let body = take (length s - length ids_prefix - length ids_suffix) (drop (length ids_prefix) s);
             parts = split_on CHR '','' body
         in if body = [] then Some (ids_object [])
            else if list_all (\<lambda>p. p \<noteq> [] \<and> list_all isdigit p) parts
            then Some (ids_object (map digits_val parts))
            else None)
      else None)"

definition example_json :: rapidjson where
  "example_json =
     \<lparr> CreateDocumentFromString = read_ids,
       DocumentParse = (\<lambda>d s. case read_ids s of None \<Rightarrow> d | Some j \<Rightarrow> j),
       WriterGetString = json_text \<rparr>"

text \<open>
  A second reader, for the examples with \<^verbatim>\<open>extras\<close>: it reads an object whose members are
  arrays of numbers, as \<^verbatim>\<open>{"tag":[7],"MSFT_screencoverage":[100.0,50.0]}\<close>, a number being
  a run of digits or a run of digits with one decimal, and takes any other text as
  malformed. A name may occur twice.
\<close>

definition read_number :: "string \<Rightarrow> json option" where
  "read_number p =
     (if p \<noteq> [] \<and> list_all isdigit p then Some (JInt (int (digits_val p)))
      else case split_on CHR ''.'' p of
             [a, [d]] \<Rightarrow>
               if a \<noteq> [] \<and> list_all isdigit a \<and> isdigit d
               then Some (JDouble (real (digits_val a) + real (digit_of d) / 10))
               else None
           | _ \<Rightarrow> None)"

definition read_member :: "string \<Rightarrow> (string \<times> json) option" where
  "read_member m =
     (let name = takeWhile (\<lambda>c. c \<noteq> CHR 0x22) (drop 1 m);
          rest = drop (length name + 2) m;
          items = drop 2 rest
      in if take 1 m = [CHR 0x22] \<and> take 2 rest = '':[''
         then map_option (\<lambda>xs. (name, JArray xs))
                (those (map read_number (if items = [] then [] else split_on CHR '','' items)))
         else None)"

definition read_members :: "string \<Rightarrow> json option" where
  "read_members s =
     (let body = butlast (drop 1 s);
          parts = split_on CHR '']'' body
      in if take 1 s = ''{'' \<and> 2 \<le> length s \<and> last s = CHR ''}''
         then
           if body = [] then Some (JObject [])
           else if last parts = [] \<and> list_all (\<lambda>p. take 1 p = '','') (drop 1 (butlast parts))
           then map_option JObject
                  (those (map read_member (take 1 parts @ map (drop 1) (drop 1 (butlast parts)))))
           else None
         else None)"

definition example_json_members :: rapidjson where
  "example_json_members =
     \<lparr> CreateDocumentFromString = read_members,
       DocumentParse = (\<lambda>d s. case read_members s of None \<Rightarrow> d | Some j \<Rightarrow> j),
       WriterGetString = json_text \<rparr>"

section \<open>Example documents\<close>

definition empty_document :: GLTFDocument where
  "empty_document =
     \<lparr> buffers = [], samplers = [], bufferViews = [], accessors = [], images = [], textures = [],
       materials = [], meshes = [], nodes = [], scenes = [], extensionsUsed = {} \<rparr>"

definition example_node :: "string \<Rightarrow> string \<Rightarrow> Node" where
  "example_node i m =
     \<lparr> extensions = Map.empty, extras = [], id' = i, name = ''node'', meshId = m, children = [] \<rparr>"

definition example_scene :: "string \<Rightarrow> string list \<Rightarrow> Scene" where
  "example_scene i roots =
     \<lparr> extensions = Map.empty, extras = [], id' = i, name = ''scene'', scene_nodes = roots \<rparr>"

definition example_material :: Material where
  "example_material =
     \<lparr> extensions = Map.empty, extras = [], id' = ''0'', name = ''material'',
       normalTexture_id = [], occlusionTexture_id = [], emissiveTextureId = [],
       metallicRoughness_baseColorTextureId = [],
       metallicRoughness_metallicRoughnessTextureId = [],
       specularGlossiness_diffuseTextureId = [],
       specularGlossiness_specularGlossinessTextureId = [] \<rparr>"

definition example_mesh :: Mesh where
  "example_mesh =
     \<lparr> extensions = Map.empty, extras = [], id' = ''0'', name = ''mesh'',
       primitives =
         [\<lparr> extensions = Map.empty, extras = [], positionsAccessorId = [], normalsAccessorId = [],
            indicesAccessorId = [], uv0AccessorId = [], uv1AccessorId = [], color0AccessorId = [],
            materialId = ''0'' \<rparr>] \<rparr>"

text \<open>One scene with the root node 0, one mesh, one material, no LOD extension.\<close>

definition example_primary :: GLTFDocument where
  "example_primary =
     empty_document
       \<lparr> materials := [example_material], meshes := [example_mesh],
         nodes := [example_node ''0'' ''0''], scenes := [example_scene ''0'' [''0'']] \<rparr>"

text \<open>Two scenes that share the root node 0.\<close>

definition example_shared_root :: GLTFDocument where
  "example_shared_root =
     empty_document
       \<lparr> nodes := [example_node ''0'' []],
         scenes := [example_scene ''0'' [''0''], example_scene ''1'' [''0'']] \<rparr>"

text \<open>One scene whose root node is the second of two nodes.\<close>

definition example_second_root :: GLTFDocument where
  "example_second_root =
     empty_document
       \<lparr> nodes := [example_node ''0'' [], example_node ''1'' []],
         scenes := [example_scene ''0'' [''1'']] \<rparr>"

text \<open>One scene with two root nodes.\<close>

definition example_two_roots :: GLTFDocument where
  "example_two_roots =
     empty_document
       \<lparr> nodes := [example_node ''0'' [], example_node ''1'' []],
         scenes := [example_scene ''0'' [''0'', ''1'']] \<rparr>"

text \<open>The same two root nodes in the other order.\<close>

definition example_two_roots_swapped :: GLTFDocument where
  "example_two_roots_swapped =
     empty_document
       \<lparr> nodes := [example_node ''0'' [], example_node ''1'' []],
         scenes := [example_scene ''0'' [''1'', ''0'']] \<rparr>"

text \<open>The example with two root nodes, and two materials.\<close>

definition example_two_materials :: GLTFDocument where
  "example_two_materials =
     example_two_roots \<lparr> materials := [example_material, example_material \<lparr> id' := ''1'' \<rparr>] \<rparr>"

text \<open>The example document, its root node carrying extras with one key.\<close>

definition example_extras :: GLTFDocument where
  \<open>example_extras =
     example_primary \<lparr> nodes := [(example_node ''0'' ''0'') \<lparr> extras := ''{"ids":[7]}'' \<rparr>] \<rparr>\<close>

text \<open>Two scenes that share the root node 0, which carries extras with one key.\<close>

definition example_shared_extras :: GLTFDocument where
  \<open>example_shared_extras =
     example_shared_root \<lparr> nodes := [(example_node ''0'' []) \<lparr> extras := ''{"tag":[7]}'' \<rparr>] \<rparr>\<close>

section \<open>Properties of the identifier functions\<close>

lemma thenE_Inr_iff:
  "thenE m f = Inr y \<longleftrightarrow> (\<exists>x. m = Inr x \<and> f x = Inr y)"
  by (cases m) (simp_all add: thenE_def)

lemma thenE_Inl_iff:
  "thenE m f = Inl e \<longleftrightarrow> m = Inl e \<or> (\<exists>x. m = Inr x \<and> f x = Inl e)"
  by (cases m) (simp_all add: thenE_def)

lemma thenE_simps [simp]:
  "thenE (Inl e) f = Inl e"
  "thenE (Inr x) f = f x"
  by (simp_all add: thenE_def)

lemma less_10_cases:
  "(d::nat) < 10 \<Longrightarrow> d = 0 \<or> d = 1 \<or> d = 2 \<or> d = 3 \<or> d = 4 \<or> d = 5 \<or> d = 6 \<or> d = 7 \<or> d = 8 \<or> d = 9"
  by arith

lemma isdigit_char_of: "d < 10 \<Longrightarrow> isdigit (digit_char d)"
  by (drule less_10_cases) (auto simp: isdigit_def digit_char_def)

lemma digit_of_char_of: "d < 10 \<Longrightarrow> digit_of (digit_char d) = d"
  by (drule less_10_cases) (auto simp: digit_of_def digit_char_def)

lemma to_string_0: "to_string 0 = ''0''"
  by (simp add: to_string.simps [of 0] digit_char_def)

lemma to_string_1: "to_string (Suc 0) = ''1''"
  by (simp add: to_string.simps [of "Suc 0"] digit_char_def)

lemma to_string_numeral:
  "to_string (numeral k) =
     (if (numeral k :: nat) < 10 then [digit_char (numeral k)]
      else to_string (numeral k div 10) @ [digit_char (numeral k mod 10)])"
  by (rule to_string.simps)

lemmas to_string_eval = to_string_0 to_string_1 to_string_numeral digit_char_def

lemma isdigit_not_space: "isdigit c \<Longrightarrow> \<not> isspace c"
  by (auto simp: isdigit_def isspace_def)

lemma isdigit_not_sign: "isdigit c \<Longrightarrow> c \<noteq> CHR ''-'' \<and> c \<noteq> CHR ''+''"
  by (auto simp: isdigit_def)

lemma to_string_digits: "c \<in> set (to_string n) \<Longrightarrow> isdigit c"
proof (induction n arbitrary: c rule: to_string.induct)
  case (1 n)
  show ?case
  proof (cases "n < 10")
    case True
    with "1.prems" show ?thesis
      by (simp add: to_string.simps [of n] isdigit_char_of)
  next
    case False
    with "1.prems" "1.IH" show ?thesis
      by (auto simp: to_string.simps [of n] isdigit_char_of)
  qed
qed

lemma to_string_nonempty: "to_string n \<noteq> []"
  by (subst to_string.simps) simp

lemma digits_val_snoc: "digits_val (ds @ [c]) = digits_val ds * 10 + digit_of c"
  by (simp add: digits_val_def)

lemma digits_val_to_string: "digits_val (to_string n) = n"
proof (induction n rule: to_string.induct)
  case (1 n)
  show ?case
  proof (cases "n < 10")
    case True
    then show ?thesis
      by (simp add: to_string.simps [of n] digits_val_def digit_of_char_of)
  next
    case False
    with "1.IH" show ?thesis
      by (simp add: to_string.simps [of n] digits_val_snoc digit_of_char_of)
  qed
qed

lemma hd_to_string_digit: "isdigit (hd (to_string n))"
  using to_string_digits [of "hd (to_string n)" n] to_string_nonempty [of n]
  by simp

lemma dropWhile_isspace_to_string: "dropWhile isspace (to_string n) = to_string n"
  using hd_to_string_digit [of n] to_string_nonempty [of n]
  by (cases "to_string n") (auto dest: isdigit_not_space)

lemma skip_sign_to_string: "skip_sign (to_string n) = to_string n"
  using hd_to_string_digit [of n] to_string_nonempty [of n]
  by (cases "to_string n") (auto simp: skip_sign_def dest: isdigit_not_sign)

lemma is_negative_to_string: "\<not> is_negative (to_string n)"
  using hd_to_string_digit [of n] to_string_nonempty [of n]
  by (cases "to_string n") (auto simp: is_negative_def dest: isdigit_not_sign)

lemma takeWhile_isdigit_to_string: "takeWhile isdigit (to_string n) = to_string n"
  by (simp add: to_string_digits)

lemma stoi_to_string:
  "stoi (to_string n) = (if int n \<le> INT_MAX then Inr (int n) else Inl StoiOutOfRange)"
  by (simp add: stoi_def Let_def dropWhile_isspace_to_string skip_sign_to_string
      is_negative_to_string takeWhile_isdigit_to_string digits_val_to_string
      to_string_nonempty INT_MIN_def INT_MAX_def)


lemmas stoi_eval = stoi_def isspace_def isdigit_def skip_sign_def is_negative_def digits_val_def
  digit_of_def INT_MIN_def INT_MAX_def

lemma stoi_to_string_junk:
  assumes "junk = [] \<or> \<not> isdigit (hd junk)"
  shows "stoi (to_string n @ junk) = stoi (to_string n)"
proof -
  have ne: "to_string n \<noteq> []" by (rule to_string_nonempty)
  have d: "dropWhile isspace (to_string n @ junk) = to_string n @ junk"
    using hd_to_string_digit [of n] ne by (cases "to_string n") (auto dest: isdigit_not_space)
  have s: "skip_sign (to_string n @ junk) = to_string n @ junk"
    using hd_to_string_digit [of n] ne
    by (cases "to_string n") (auto simp: skip_sign_def dest: isdigit_not_sign)
  have g: "is_negative (to_string n @ junk) = is_negative (to_string n)"
    using ne by (cases "to_string n") (auto simp: is_negative_def)
  have t: "takeWhile isdigit (to_string n @ junk) = to_string n"
    using assms
    by (cases junk) (auto simp: takeWhile_append2 to_string_digits takeWhile_isdigit_to_string)
  show ?thesis
    by (simp add: stoi_def Let_def d s g t dropWhile_isspace_to_string skip_sign_to_string
        takeWhile_isdigit_to_string)
qed

lemma size_t_of_nat: "m < 2 ^ SIZE_WIDTH \<Longrightarrow> size_t_of (int m) = m"
proof -
  assume a: "m < 2 ^ SIZE_WIDTH"
  have "int m mod 2 ^ SIZE_WIDTH = int (m mod 2 ^ SIZE_WIDTH)"
    by (simp add: zmod_int)
  also have "\<dots> = int m" using a by simp
  finally show ?thesis by (simp add: size_t_of_def)
qed

lemma AddIndexOffset_to_string:
  assumes "int n \<le> INT_MAX" and "n + offset < 2 ^ SIZE_WIDTH"
    and "junk = [] \<or> \<not> isdigit (hd junk)"
  shows "AddIndexOffset (to_string n @ junk) offset = Inr (to_string (n + offset))"
proof -
  have "stoi (to_string n @ junk) = Inr (int n)"
    using assms(1,3) by (simp add: stoi_to_string_junk stoi_to_string)
  moreover have "size_t_of (int n + int offset) = n + offset"
    using size_t_of_nat [OF assms(2)] by simp
  ultimately show ?thesis
    by (simp add: AddIndexOffset_def to_string_nonempty)
qed

lemma AddIndexOffset_fails_iff:
  "(\<exists>e. AddIndexOffset ident offset = Inl e) \<longleftrightarrow>
     ident \<noteq> [] \<and>
     (let s = dropWhile isspace ident; ds = takeWhile isdigit (skip_sign s) in
        ds = [] \<or>
        (if is_negative s then - int (digits_val ds) < INT_MIN else INT_MAX < int (digits_val ds)))"
  by (simp add: AddIndexOffset_def stoi_def Let_def INT_MIN_def INT_MAX_def)

text \<open>
  Claim C5, as the code has it. \<open>AddIndexOffset\<close> returns the empty identifier unchanged.
  Any other identifier is read by \<^verbatim>\<open>std::stoi\<close>: for the decimal string of a number \<open>n\<close> that
  fits an \<^verbatim>\<open>int\<close>, followed by nothing or by anything that does not start with a digit, the
  result is the decimal string of \<open>n + offset\<close> (as long as the sum fits \<^verbatim>\<open>size_t\<close>). The call
  fails exactly when the identifier is not empty and either no digit follows its leading
  white space and optional sign, or the number read does not fit an \<^verbatim>\<open>int\<close>.
\<close>

theorem AddIndexOffset_stoi_semantics:
  "AddIndexOffset [] offset = Inr [] \<and>
   (int n \<le> INT_MAX \<and> n + offset < 2 ^ SIZE_WIDTH \<and> (junk = [] \<or> \<not> isdigit (hd junk)) \<longrightarrow>
      AddIndexOffset (to_string n @ junk) offset = Inr (to_string (n + offset))) \<and>
   ((\<exists>e. AddIndexOffset ident offset = Inl e) \<longleftrightarrow>
      ident \<noteq> [] \<and>
      (let s = dropWhile isspace ident; ds = takeWhile isdigit (skip_sign s) in
         ds = [] \<or>
         (if is_negative s then - int (digits_val ds) < INT_MIN
          else INT_MAX < int (digits_val ds))))"
proof (intro conjI impI)
  show "AddIndexOffset [] offset = Inr []"
    by (simp add: AddIndexOffset_def)
next
  assume "int n \<le> INT_MAX \<and> n + offset < 2 ^ SIZE_WIDTH \<and> (junk = [] \<or> \<not> isdigit (hd junk))"
  then show "AddIndexOffset (to_string n @ junk) offset = Inr (to_string (n + offset))"
    by (simp add: AddIndexOffset_to_string)
next
  show "(\<exists>e. AddIndexOffset ident offset = Inl e) \<longleftrightarrow>
      ident \<noteq> [] \<and>
      (let s = dropWhile isspace ident; ds = takeWhile isdigit (skip_sign s) in
         ds = [] \<or>
         (if is_negative s then - int (digits_val ds) < INT_MIN
          else INT_MAX < int (digits_val ds)))"
    by (rule AddIndexOffset_fails_iff)
qed

theorem AddIndexOffset_stoi_semantics_witness:
  "AddIndexOffset [] 1 = Inr [] \<and>
   AddIndexOffset ''41x'' 1 = Inr ''42'' \<and>
   (\<exists>e. AddIndexOffset ''abc'' 1 = Inl e)"
  using AddIndexOffset_stoi_semantics [of 1 41 "''x''" "''abc''"]
  by (simp add: to_string_eval stoi_eval SIZE_WIDTH_def)

text \<open>
  The claim as it is written fails in three ways: the decimal string of a non-negative
  integer beyond \<^verbatim>\<open>INT_MAX\<close> is refused; an identifier that is not an integer but starts
  with one is accepted, the rest of it dropped; and the sum wraps at the width of
  \<^verbatim>\<open>size_t\<close>.
\<close>

theorem AddIndexOffset_claim_counterexample:
  "AddIndexOffset ''2147483648'' 0 = Inl StoiOutOfRange \<and>
   AddIndexOffset ''7x'' 1 = Inr ''8'' \<and>
   AddIndexOffset ''1'' (2 ^ 64 - 1) = Inr ''0''"
  by (simp add: AddIndexOffset_def stoi_eval size_t_of_def SIZE_WIDTH_def to_string_eval)


section \<open>Serialising a chain\<close>

lemma mapE_Inr_iff: "mapE f xs = Inr ys \<longleftrightarrow> list_all2 (\<lambda>x y. f x = Inr y) xs ys"
proof (induction xs arbitrary: ys)
  case Nil
  then show ?case by auto
next
  case (Cons x xs)
  show ?case
    by (cases ys) (auto simp: thenE_Inr_iff Cons.IH)
qed

lemma mapE_map: "(\<And>x. x \<in> set xs \<Longrightarrow> f x = Inr (g x)) \<Longrightarrow> mapE f xs = Inr (map g xs)"
  by (induction xs) simp_all

lemma first_index_Some:
  "first_index P xs = Some i \<Longrightarrow> i < length xs \<and> P (xs ! i) \<and> (\<forall>j<i. \<not> P (xs ! j))"
proof (induction xs arbitrary: i)
  case Nil
  then show ?case by simp
next
  case (Cons x xs)
  show ?case
  proof (cases "P x")
    case True
    with Cons.prems show ?thesis by simp
  next
    case False
    with Cons.prems obtain i' where i': "first_index P xs = Some i'" "i = Suc i'"
      by auto
    from Cons.IH [OF i'(1)] False i'(2) show ?thesis
      by (auto simp: nth_Cons split: nat.splits)
  qed
qed

lemma first_index_None_iff: "first_index P xs = None \<longleftrightarrow> (\<forall>x\<in>set xs. \<not> P x)"
  by (induction xs) auto

lemma GetIndex_Inr:
  "GetIndex c key = Inr i \<Longrightarrow> i < length c \<and> id' (c ! i) = key \<and> (\<forall>j<i. id' (c ! j) \<noteq> key)"
  using first_index_Some [of "\<lambda>e. id' e = key" c i]
  by (auto simp: GetIndex_def split: if_splits option.splits)

lemma GetIndex_Has:
  "key \<noteq> [] \<Longrightarrow> Has c key \<Longrightarrow> \<exists>i. GetIndex c key = Inr i"
  using first_index_None_iff [of "\<lambda>e. id' e = key" c]
  by (auto simp: GetIndex_def Has_def split: option.splits)

lemma mapE_GetIndex:
  assumes "\<forall>l\<in>set lods. l \<noteq> [] \<and> Has c l"
  shows "\<exists>idxs. mapE (GetIndex c) lods = Inr idxs \<and> length idxs = length lods \<and>
           (\<forall>k<length lods. idxs ! k < length c \<and> id' (c ! (idxs ! k)) = lods ! k \<and>
              (\<forall>j<idxs ! k. id' (c ! j) \<noteq> lods ! k))"
proof -
  define g where "g l = (SOME i. GetIndex c l = Inr i)" for l
  have g: "GetIndex c l = Inr (g l)" if "l \<in> set lods" for l
    unfolding g_def using GetIndex_Has [of l c] assms that by (auto intro: someI_ex)
  have "mapE (GetIndex c) lods = Inr (map g lods)"
    by (rule mapE_map) (rule g)
  moreover have "\<forall>k<length lods. map g lods ! k < length c \<and> id' (c ! (map g lods ! k)) = lods ! k \<and>
      (\<forall>j<map g lods ! k. id' (c ! j) \<noteq> lods ! k)"
    using g GetIndex_Inr by (metis nth_map nth_mem)
  ultimately show ?thesis by auto
qed

text \<open>
  Claim C7. An empty chain gives the empty payload, whatever the entity kind. A chain that
  is not empty, for nodes (for materials), all of whose entries are ids of the node
  (material) collection, gives the text that the writer produces for the JSON object with
  the one member \<^verbatim>\<open>ids\<close>, an array of integers of the length of the chain: its \<open>k\<close>-th
  element is the position in the collection of the entity whose id is the \<open>k\<close>-th entry
  of the chain (the first such position). For any other kind a chain that is not empty
  fails with \<open>UnsupportedEntityKind\<close>.
\<close>

theorem SerializeExtensionMSFTLod_cases:
  "SerializeExtensionMSFTLod rj T [] doc = Inr [] \<and>
   (lods \<noteq> [] \<and> (\<forall>l\<in>set lods. l \<noteq> [] \<and> Has (nodes doc) l) \<longrightarrow>
      (\<exists>idxs. SerializeExtensionMSFTLod rj KNode lods doc =
                 Inr (WriterGetString rj (JObject [(''ids'', JArray (map (\<lambda>i. JInt (int i)) idxs))])) \<and>
         length idxs = length lods \<and>
         (\<forall>k<length lods. idxs ! k < length (nodes doc) \<and> id' (nodes doc ! (idxs ! k)) = lods ! k \<and>
            (\<forall>j<idxs ! k. id' (nodes doc ! j) \<noteq> lods ! k)))) \<and>
   (lods \<noteq> [] \<and> (\<forall>l\<in>set lods. l \<noteq> [] \<and> Has (materials doc) l) \<longrightarrow>
      (\<exists>idxs. SerializeExtensionMSFTLod rj KMaterial lods doc =
                 Inr (WriterGetString rj (JObject [(''ids'', JArray (map (\<lambda>i. JInt (int i)) idxs))])) \<and>
         length idxs = length lods \<and>
         (\<forall>k<length lods. idxs ! k < length (materials doc) \<and> id' (materials doc ! (idxs ! k)) = lods ! k \<and>
            (\<forall>j<idxs ! k. id' (materials doc ! j) \<noteq> lods ! k)))) \<and>
   (lods \<noteq> [] \<longrightarrow> SerializeExtensionMSFTLod rj KOther lods doc = Inl UnsupportedEntityKind)"
proof (intro conjI impI)
  show "SerializeExtensionMSFTLod rj T [] doc = Inr []"
    by (simp add: SerializeExtensionMSFTLod_def)
next
  assume a: "lods \<noteq> [] \<and> (\<forall>l\<in>set lods. l \<noteq> [] \<and> Has (nodes doc) l)"
  then obtain idxs where "mapE (GetIndex (nodes doc)) lods = Inr idxs" "length idxs = length lods"
     "\<forall>k<length lods. idxs ! k < length (nodes doc) \<and> id' (nodes doc ! (idxs ! k)) = lods ! k \<and>
        (\<forall>j<idxs ! k. id' (nodes doc ! j) \<noteq> lods ! k)"
    using mapE_GetIndex [of lods "nodes doc"] by blast
  with a show "\<exists>idxs. SerializeExtensionMSFTLod rj KNode lods doc =
                 Inr (WriterGetString rj (JObject [(''ids'', JArray (map (\<lambda>i. JInt (int i)) idxs))])) \<and>
         length idxs = length lods \<and>
         (\<forall>k<length lods. idxs ! k < length (nodes doc) \<and> id' (nodes doc ! (idxs ! k)) = lods ! k \<and>
            (\<forall>j<idxs ! k. id' (nodes doc ! j) \<noteq> lods ! k))"
    by (intro exI [of _ idxs]) (simp add: SerializeExtensionMSFTLod_def ids_object_def MSFT_LOD_IDS_KEY_def)
next
  assume a: "lods \<noteq> [] \<and> (\<forall>l\<in>set lods. l \<noteq> [] \<and> Has (materials doc) l)"
  then obtain idxs where "mapE (GetIndex (materials doc)) lods = Inr idxs" "length idxs = length lods"
     "\<forall>k<length lods. idxs ! k < length (materials doc) \<and> id' (materials doc ! (idxs ! k)) = lods ! k \<and>
        (\<forall>j<idxs ! k. id' (materials doc ! j) \<noteq> lods ! k)"
    using mapE_GetIndex [of lods "materials doc"] by blast
  with a show "\<exists>idxs. SerializeExtensionMSFTLod rj KMaterial lods doc =
                 Inr (WriterGetString rj (JObject [(''ids'', JArray (map (\<lambda>i. JInt (int i)) idxs))])) \<and>
         length idxs = length lods \<and>
         (\<forall>k<length lods. idxs ! k < length (materials doc) \<and> id' (materials doc ! (idxs ! k)) = lods ! k \<and>
            (\<forall>j<idxs ! k. id' (materials doc ! j) \<noteq> lods ! k))"
    by (intro exI [of _ idxs]) (simp add: SerializeExtensionMSFTLod_def ids_object_def MSFT_LOD_IDS_KEY_def)
next
  assume "lods \<noteq> []"
  then show "SerializeExtensionMSFTLod rj KOther lods doc = Inl UnsupportedEntityKind"
    by (simp add: SerializeExtensionMSFTLod_def)
qed

lemmas example_defs = example_primary_def empty_document_def example_node_def example_material_def
  example_mesh_def example_scene_def example_shared_root_def example_second_root_def
  example_two_roots_def example_two_roots_swapped_def example_two_materials_def example_extras_def

lemmas json_eval = example_json_def ids_object_def MSFT_LOD_IDS_KEY_def quoted_def to_string_int_def
  to_string_eval

text \<open>
  Two nodes and two materials, the chain naming the second before the first: the positions
  are written in the order of the chain.
\<close>

theorem SerializeExtensionMSFTLod_cases_witness:
  \<open>SerializeExtensionMSFTLod example_json KOther [] example_two_materials = Inr [] \<and>
   [''1'', ''0''] \<noteq> [] \<and>
   Has (nodes example_two_materials) ''1'' \<and> Has (nodes example_two_materials) ''0'' \<and>
   Has (materials example_two_materials) ''1'' \<and> Has (materials example_two_materials) ''0'' \<and>
   SerializeExtensionMSFTLod example_json KNode [''1'', ''0''] example_two_materials
     = Inr ''{"ids":[1,0]}'' \<and>
   SerializeExtensionMSFTLod example_json KMaterial [''1'', ''0''] example_two_materials
     = Inr ''{"ids":[1,0]}'' \<and>
   SerializeExtensionMSFTLod example_json KOther [''1'', ''0''] example_two_materials
     = Inl UnsupportedEntityKind\<close>
  using SerializeExtensionMSFTLod_cases [of example_json KOther example_two_materials "[''1'', ''0'']"]
  by (simp add: SerializeExtensionMSFTLod_def GetIndex_def Has_def example_defs json_eval)

section \<open>One merge step\<close>

lemmas container_eval = Get_def GetIndex_def Append_def Has_def Replace_def

lemmas lodmap_eval = LODMap_at_def LODMap_emplace_def emplace_back_def

lemma Append_Inr: "Append c e = Inr c' \<Longrightarrow> c' = c @ [e]"
  by (auto simp: Append_def split: if_splits)

lemma AppendAll_Inr:
  "AppendAll f c xs = Inr c' \<Longrightarrow> \<exists>ys. c' = c @ ys \<and> list_all2 (\<lambda>x y. f x = Inr y) xs ys"
proof (induction xs arbitrary: c)
  case Nil
  then show ?case by simp
next
  case (Cons x xs)
  from Cons.prems obtain y c1 where y: "f x = Inr y" and c1: "Append c y = Inr c1"
    and r: "AppendAll f c1 xs = Inr c'"
    by (auto simp: thenE_Inr_iff)
  from Cons.IH [OF r] obtain ys where "c' = c1 @ ys" "list_all2 (\<lambda>x y. f x = Inr y) xs ys"
    by blast
  with y Append_Inr [OF c1] show ?case
    by (intro exI [of _ "y # ys"]) simp
qed

lemma AppendAll_length:
  "AppendAll f c xs = Inr c' \<Longrightarrow> length c' = length c + length xs"
  by (drule AppendAll_Inr) (auto dest: list_all2_lengthD)

lemma AppendAll_prefix:
  "AppendAll f c xs = Inr c' \<Longrightarrow> take (length c) c' = c"
  by (drule AppendAll_Inr) auto

lemma mergeCollections_Inr:
  assumes "mergeCollections rj primary lod lvl = Inr g"
  shows "length (buffers g) = length (buffers primary) + length (buffers lod)"
    and "length (samplers g) = length (samplers primary) + length (samplers lod)"
    and "length (bufferViews g) = length (bufferViews primary) + length (bufferViews lod)"
    and "length (accessors g) = length (accessors primary) + length (accessors lod)"
    and "length (images g) = length (images primary) + length (images lod)"
    and "length (textures g) = length (textures primary) + length (textures lod)"
    and "length (materials g) = length (materials primary) + length (materials lod)"
    and "length (meshes g) = length (meshes primary) + length (meshes lod)"
    and "length (nodes g) = length (nodes primary) + length (nodes lod)"
    and "scenes g = scenes primary"
    and "take (length (nodes primary)) (nodes g) = nodes primary"
    and "extensionsUsed g = insert EXTENSION_MSFT_LOD (extensionsUsed primary \<union> extensionsUsed lod)"
proof -
  from assms obtain bs ss bvs acs ims txs mts mss nds where
    b: "AppendAll (offsetId (length (buffers primary))) (buffers primary) (buffers lod) = Inr bs" and
    s: "AppendAll (offsetId (length (samplers primary))) (samplers primary) (samplers lod) = Inr ss" and
    bv: "AppendAll (offsetBufferView (length (bufferViews primary)) (length (buffers primary))) (bufferViews primary) (bufferViews lod) = Inr bvs" and
    ac: "AppendAll (offsetAccessor (length (accessors primary)) (length (bufferViews primary))) (accessors primary) (accessors lod) = Inr acs" and
    im: "AppendAll (offsetImage (length (images primary)) (length (bufferViews primary))) (images primary) (images lod) = Inr ims" and
    tx: "AppendAll (offsetTexture rj (length (textures primary)) (length (samplers primary)) (length (images primary))) (textures primary) (textures lod) = Inr txs" and
    mt: "AppendAll (offsetMaterial rj (''_lod'' @ to_string lvl) (length (materials primary)) (length (textures primary))) (materials primary) (materials lod) = Inr mts" and
    ms: "AppendAll (offsetMesh (''_lod'' @ to_string lvl) (length (meshes primary)) (length (accessors primary)) (length (materials primary))) (meshes primary) (meshes lod) = Inr mss" and
    nd: "AppendAll (offsetNode (''_lod'' @ to_string lvl) (length (nodes primary)) (length (meshes primary))) (nodes primary) (nodes lod) = Inr nds" and
    g: "g = primary\<lparr>buffers := bs, samplers := ss, bufferViews := bvs, accessors := acs,
               images := ims, textures := txs, materials := mts, meshes := mss,
               nodes := nds, extensionsUsed := insert EXTENSION_MSFT_LOD (extensionsUsed primary \<union> extensionsUsed lod)\<rparr>"
    unfolding mergeCollections_def Let_def thenE_Inr_iff by blast
  show "length (buffers g) = length (buffers primary) + length (buffers lod)"
    using AppendAll_length [OF b] g by simp
  show "length (samplers g) = length (samplers primary) + length (samplers lod)"
    using AppendAll_length [OF s] g by simp
  show "length (bufferViews g) = length (bufferViews primary) + length (bufferViews lod)"
    using AppendAll_length [OF bv] g by simp
  show "length (accessors g) = length (accessors primary) + length (accessors lod)"
    using AppendAll_length [OF ac] g by simp
  show "length (images g) = length (images primary) + length (images lod)"
    using AppendAll_length [OF im] g by simp
  show "length (textures g) = length (textures primary) + length (textures lod)"
    using AppendAll_length [OF tx] g by simp
  show "length (materials g) = length (materials primary) + length (materials lod)"
    using AppendAll_length [OF mt] g by simp
  show "length (meshes g) = length (meshes primary) + length (meshes lod)"
    using AppendAll_length [OF ms] g by simp
  show "length (nodes g) = length (nodes primary) + length (nodes lod)"
    using AppendAll_length [OF nd] g by simp
  show "scenes g = scenes primary" using g by simp
  show "take (length (nodes primary)) (nodes g) = nodes primary"
    using AppendAll_prefix [OF nd] g by simp
  show "extensionsUsed g = insert EXTENSION_MSFT_LOD (extensionsUsed primary \<union> extensionsUsed lod)"
    using g by simp
qed

lemma thenE_neq: "m \<noteq> Inl e \<Longrightarrow> (\<And>x. f x \<noteq> Inl e) \<Longrightarrow> thenE m f \<noteq> Inl e"
  by (cases m) auto

lemma mapE_neq: "(\<And>x. f x \<noteq> Inl e) \<Longrightarrow> mapE f xs \<noteq> Inl e"
  by (induction xs) (auto simp: thenE_Inl_iff)

lemma stoi_not_topology: "stoi s \<noteq> Inl TopologyMismatch"
  by (simp add: stoi_def Let_def)

lemma AddIndexOffset_not_topology: "AddIndexOffset i off \<noteq> Inl TopologyMismatch"
  by (auto simp: AddIndexOffset_def thenE_Inl_iff stoi_not_topology)

lemma Append_not_topology: "Append c x \<noteq> Inl TopologyMismatch"
  by (simp add: Append_def)

lemma AppendAll_neq:
  "(\<And>x. f x \<noteq> Inl TopologyMismatch) \<Longrightarrow> AppendAll f c xs \<noteq> Inl TopologyMismatch"
  by (induction xs arbitrary: c) (auto simp: thenE_Inl_iff Append_not_topology)

lemma FindMember_not_topology: "FindMember j k \<noteq> Inl TopologyMismatch"
  by (simp add: FindMember_def split: json.splits)

lemma HasMember_not_topology: "HasMember j k \<noteq> Inl TopologyMismatch"
  by (auto simp: HasMember_def thenE_Inl_iff FindMember_not_topology)

lemma GetMember_not_topology: "GetMember j k \<noteq> Inl TopologyMismatch"
  by (auto simp: GetMember_def thenE_Inl_iff FindMember_not_topology split: option.splits)

lemma GetInt_not_topology: "GetInt j \<noteq> Inl TopologyMismatch"
  by (simp add: GetInt_def split: json.splits)

lemmas json_not_topology = HasMember_not_topology GetMember_not_topology GetInt_not_topology

lemma AddIndexOffsetPacked_not_topology: "AddIndexOffsetPacked j k off \<noteq> Inl TopologyMismatch"
  by (auto simp: AddIndexOffsetPacked_def thenE_Inl_iff json_not_topology split: if_splits)

lemma patchDds_not_topology: "patchDds rj payload off \<noteq> Inl TopologyMismatch"
  by (auto simp: patchDds_def thenE_Inl_iff json_not_topology split: option.splits if_splits)

lemma patchOrm_not_topology: "patchOrm rj payload off \<noteq> Inl TopologyMismatch"
  by (auto simp: patchOrm_def thenE_Inl_iff AddIndexOffsetPacked_not_topology split: option.splits)

lemma patchExtension_not_topology:
  "(\<And>p. patch p \<noteq> Inl TopologyMismatch) \<Longrightarrow> patchExtension exts key patch \<noteq> Inl TopologyMismatch"
  by (auto simp: patchExtension_def thenE_Inl_iff split: option.splits)

lemma offsetId_not_topology: "offsetId off x \<noteq> Inl TopologyMismatch"
  by (auto simp: offsetId_def thenE_Inl_iff AddIndexOffset_not_topology)

lemma offsetBufferView_not_topology: "offsetBufferView a b x \<noteq> Inl TopologyMismatch"
  by (auto simp: offsetBufferView_def thenE_Inl_iff AddIndexOffset_not_topology)

lemma offsetAccessor_not_topology: "offsetAccessor a b x \<noteq> Inl TopologyMismatch"
  by (auto simp: offsetAccessor_def thenE_Inl_iff AddIndexOffset_not_topology)

lemma offsetImage_not_topology: "offsetImage a b x \<noteq> Inl TopologyMismatch"
  by (auto simp: offsetImage_def thenE_Inl_iff AddIndexOffset_not_topology)

lemma offsetTexture_not_topology: "offsetTexture rj a b c x \<noteq> Inl TopologyMismatch"
  by (auto simp: offsetTexture_def thenE_Inl_iff AddIndexOffset_not_topology
      patchExtension_not_topology patchDds_not_topology)

lemma offsetMaterial_not_topology: "offsetMaterial rj l a b x \<noteq> Inl TopologyMismatch"
  by (auto simp: offsetMaterial_def thenE_Inl_iff AddIndexOffset_not_topology
      patchExtension_not_topology patchOrm_not_topology)

lemma offsetPrimitive_not_topology: "offsetPrimitive a b x \<noteq> Inl TopologyMismatch"
  by (auto simp: offsetPrimitive_def thenE_Inl_iff AddIndexOffset_not_topology)

lemma offsetMesh_not_topology: "offsetMesh l a b c x \<noteq> Inl TopologyMismatch"
  by (auto simp: offsetMesh_def thenE_Inl_iff AddIndexOffset_not_topology mapE_neq
      offsetPrimitive_not_topology)

lemma offsetNode_not_topology: "offsetNode l a b x \<noteq> Inl TopologyMismatch"
  by (auto simp: offsetNode_def thenE_Inl_iff AddIndexOffset_not_topology mapE_neq)

lemma mergeCollections_not_topology:
  "mergeCollections rj primary lod lvl \<noteq> Inl TopologyMismatch"
  by (auto simp: mergeCollections_def Let_def thenE_Inl_iff AppendAll_neq offsetId_not_topology
      offsetBufferView_not_topology offsetAccessor_not_topology offsetImage_not_topology
      offsetTexture_not_topology offsetMaterial_not_topology offsetMesh_not_topology
      offsetNode_not_topology)

lemma Get_not_topology: "Get c k \<noteq> Inl TopologyMismatch"
  by (simp add: Get_def split: option.splits)

lemma LODMap_at_not_topology: "LODMap_at m k \<noteq> Inl TopologyMismatch"
  by (simp add: LODMap_at_def split: option.splits)

lemma lodRootIdx_not_topology: "lodRootIdx off i \<noteq> Inl TopologyMismatch"
  by (auto simp: lodRootIdx_def Let_def thenE_Inl_iff stoi_not_topology)

lemma updateLods_not_topology:
  "fst (updateLods ns off pairs lods) \<noteq> Some TopologyMismatch"
proof (induction pairs arbitrary: lods)
  case Nil
  then show ?case by simp
next
  case (Cons a pairs)
  obtain idx lodId where a: "a = (idx, lodId)" by (cases a)
  show ?case
    using Cons.IH Get_not_topology [of ns idx] lodRootIdx_not_topology [of off lodId]
      LODMap_at_not_topology [of lods]
    by (auto simp: a split: sum.splits)
qed

lemma AddGLTFNodeLOD_Inr:
  assumes "AddGLTFNodeLOD rj primary lods lod = (Inr g, lods')"
  obtains lvl where "checkScenes primary lods lod = Inr lvl"
    and "mergeCollections rj primary lod lvl = Inr g"
    and "updateLods (nodes g) (length (nodes primary)) (rootPairs (scenes primary) (scenes lod)) lods = (None, lods')"
  using assms
  by (auto simp: AddGLTFNodeLOD_def split: sum.splits prod.splits option.splits)

lemma checkScenes_Inr:
  assumes "checkScenes primary lods lod = Inr lvl"
  shows "length (scenes primary) = length (scenes lod)" and "scenes primary \<noteq> []"
  using assms
  by (auto simp: checkScenes_def Let_def thenE_Inr_iff split: if_splits)

text \<open>
  Claim C1, as the code has it. After a successful merge step each of the nine collections
  Buffer, Sampler, BufferView, Accessor, Image, Texture, Material, Mesh and Node of the
  merged document has the size of the primary's plus the size of the candidate's. The
  scenes are not merged: the merged document has as many scenes as the primary, which is
  as many as the candidate, and at least one.
\<close>

theorem AddGLTFNodeLOD_entity_counts:
  assumes "AddGLTFNodeLOD rj primary lods lod = (Inr g, lods')"
  shows "length (buffers g) = length (buffers primary) + length (buffers lod) \<and>
         length (samplers g) = length (samplers primary) + length (samplers lod) \<and>
         length (bufferViews g) = length (bufferViews primary) + length (bufferViews lod) \<and>
         length (accessors g) = length (accessors primary) + length (accessors lod) \<and>
         length (images g) = length (images primary) + length (images lod) \<and>
         length (textures g) = length (textures primary) + length (textures lod) \<and>
         length (materials g) = length (materials primary) + length (materials lod) \<and>
         length (meshes g) = length (meshes primary) + length (meshes lod) \<and>
         length (nodes g) = length (nodes primary) + length (nodes lod) \<and>
         length (scenes g) = length (scenes primary) \<and>
         length (scenes g) = length (scenes lod) \<and>
         0 < length (scenes lod)"
proof -
  from assms obtain lvl where c: "checkScenes primary lods lod = Inr lvl"
    and m: "mergeCollections rj primary lod lvl = Inr g"
    by (rule AddGLTFNodeLOD_Inr)
  from mergeCollections_Inr [OF m] checkScenes_Inr [OF c] show ?thesis
    by auto
qed

lemma example_step:
  "\<exists>g. AddGLTFNodeLOD example_json example_primary [(''0'', [])] example_primary = (Inr g, [(''0'', [''1''])])
      \<and> entity_counts g = [0, 0, 0, 0, 0, 0, 2, 2, 2, 1]"
  by (simp add: AddGLTFNodeLOD_def checkScenes_def rootNodesMatch_def mergeCollections_def rootPairs_def lodRootIdx_def int_of_size_t_def
     example_defs container_eval lodmap_eval offsetId_def offsetMaterial_def offsetMesh_def offsetNode_def offsetPrimitive_def
     AddIndexOffset_def stoi_eval size_t_of_def SIZE_WIDTH_def to_string_eval to_string_int_def patchExtension_def EXTENSION_MSFT_PACKING_ORM_def Let_def entity_counts_def)

theorem AddGLTFNodeLOD_entity_counts_witness:
  "entity_counts example_primary = [0, 0, 0, 0, 0, 0, 1, 1, 1, 1] \<and>
   map_sum id entity_counts (fst (AddGLTFNodeLOD example_json example_primary [(''0'', [])] example_primary))
     = Inr [0, 0, 0, 0, 0, 0, 2, 2, 2, 1]"
proof -
  obtain g where g: "AddGLTFNodeLOD example_json example_primary [(''0'', [])] example_primary = (Inr g, [(''0'', [''1''])])"
    using example_step by blast
  from AddGLTFNodeLOD_entity_counts [OF g] g show ?thesis
    by (simp add: entity_counts_def example_defs)
qed

text \<open>
  The claim as it is written counts the scenes too: merging the example document with
  itself succeeds and gives one scene, not two.
\<close>

theorem AddGLTFNodeLOD_scene_count_counterexample:
  "map_sum id (length \<circ> scenes)
     (fst (AddGLTFNodeLOD example_json example_primary [(''0'', [])] example_primary)) = Inr 1 \<and>
   length (scenes example_primary) + length (scenes example_primary) = 2"
  using example_step by (auto simp: entity_counts_def example_defs)


lemma AddGLTFNodeLOD_Inr_scenes:
  "AddGLTFNodeLOD rj primary lods lod = (Inr g, lods') \<Longrightarrow> scenes g = scenes primary"
  by (erule AddGLTFNodeLOD_Inr) (rule mergeCollections_Inr)

text \<open>
  Claim C9. A successful merge step returns a document whose scenes are the scenes of the
  primary, whatever the scenes of the candidate hold.
\<close>

theorem AddGLTFNodeLOD_scenes:
  "AddGLTFNodeLOD rj primary lods lod = (Inr g, lods') \<Longrightarrow> scenes g = scenes primary"
  by (rule AddGLTFNodeLOD_Inr_scenes)

theorem AddGLTFNodeLOD_scenes_witness:
  "entity_counts example_primary = [0, 0, 0, 0, 0, 0, 1, 1, 1, 1] \<and>
   map_sum id scenes (fst (AddGLTFNodeLOD example_json example_primary [(''0'', [])] example_primary))
     = Inr (scenes example_primary)"
proof -
  obtain g where g: "AddGLTFNodeLOD example_json example_primary [(''0'', [])] example_primary = (Inr g, [(''0'', [''1''])])"
    using example_step by blast
  from AddGLTFNodeLOD_scenes [OF g] g show ?thesis
    by (simp add: entity_counts_def example_defs)
qed

lemma checkScenes_no_scenes: "scenes lod = [] \<Longrightarrow> checkScenes primary lods lod = Inl TopologyMismatch"
  by (cases "scenes primary") (simp_all add: checkScenes_def)

text \<open>
  Claim C6, as the code has it. A candidate with no scene, and so the candidate whose
  every collection is empty, is never merged: the step raises \<open>TopologyMismatch\<close> (line 149),
  returns no document, and leaves the registry as it was.
\<close>

theorem AddGLTFNodeLOD_empty_candidate:
  "scenes lod = [] \<Longrightarrow> AddGLTFNodeLOD rj primary lods lod = (Inl TopologyMismatch, lods)"
  by (simp add: AddGLTFNodeLOD_def checkScenes_no_scenes)

theorem AddGLTFNodeLOD_empty_candidate_witness:
  "scenes empty_document = [] \<and>
   AddGLTFNodeLOD example_json example_primary [(''0'', [])] empty_document = (Inl TopologyMismatch, [(''0'', [])])"
  using AddGLTFNodeLOD_empty_candidate [of empty_document example_json example_primary "[(''0'', [])]"]
  by (simp add: empty_document_def)

text \<open>
  The claim as it is written calls the step successful: with the example document as
  primary and the candidate whose ten collections are empty, the step raises.
\<close>

theorem AddGLTFNodeLOD_empty_candidate_counterexample:
  "entity_counts empty_document = [0, 0, 0, 0, 0, 0, 0, 0, 0, 0] \<and>
   fst (AddGLTFNodeLOD example_json example_primary [(''0'', [])] empty_document) = Inl TopologyMismatch"
  by (simp add: AddGLTFNodeLOD_def checkScenes_def entity_counts_def example_defs)

lemma AddGLTFNodeLOD_checkScenes_Inl:
  "checkScenes primary lods lod = Inl e \<Longrightarrow> AddGLTFNodeLOD rj primary lods lod = (Inl e, lods)"
  by (simp add: AddGLTFNodeLOD_def)

lemma AddGLTFNodeLOD_TopologyMismatch_iff:
  "fst (AddGLTFNodeLOD rj primary lods lod) = Inl TopologyMismatch \<longleftrightarrow>
     checkScenes primary lods lod = Inl TopologyMismatch"
proof (cases "checkScenes primary lods lod")
  case (Inl e)
  then show ?thesis by (simp add: AddGLTFNodeLOD_def)
next
  case (Inr lvl)
  show ?thesis
  proof (cases "mergeCollections rj primary lod lvl")
    case (Inl e)
    with Inr mergeCollections_not_topology [of rj primary lod lvl] show ?thesis
      by (simp add: AddGLTFNodeLOD_def)
  next
    case g: (Inr g)
    with Inr
      updateLods_not_topology [of "nodes g" "length (nodes primary)" "rootPairs (scenes primary) (scenes lod)" lods]
    show ?thesis
      by (auto simp: AddGLTFNodeLOD_def split: prod.splits option.splits)
  qed
qed

lemma AddGLTFNodeLOD_TopologyMismatch:
  assumes "fst (AddGLTFNodeLOD rj primary lods lod) = Inl TopologyMismatch"
  shows "AddGLTFNodeLOD rj primary lods lod = (Inl TopologyMismatch, lods)"
  using assms [unfolded AddGLTFNodeLOD_TopologyMismatch_iff]
  by (simp add: AddGLTFNodeLOD_def)

lemma matchScenes_mismatch:
  assumes "(p, l) \<in> set pairs" and "\<not> rootNodesMatch p l"
  shows "matchScenes ns lods pairs st \<noteq> Inr (True, lvl)"
  using assms
proof (induction pairs arbitrary: st)
  case Nil
  then show ?case by simp
next
  case (Cons a pairs)
  obtain p' l' where a: "a = (p', l')" by (cases a)
  obtain m k where st: "st = (m, k)" by (cases st)
  show ?case
  proof (cases "rootNodesMatch p' l'")
    case False
    then show ?thesis by (simp add: a st)
  next
    case True
    with Cons.prems a have "(p, l) \<in> set pairs" by auto
    from Cons.IH [OF this Cons.prems(2)] True show ?thesis
      by (auto simp: a st thenE_Inr_iff split: list.splits)
  qed
qed

lemma checkScenes_mismatch:
  assumes "length (scenes primary) \<noteq> length (scenes lod) \<or>
           (\<exists>(p, l) \<in> set (zip (scenes primary) (scenes lod)). \<not> rootNodesMatch p l)"
  shows "\<exists>e. checkScenes primary lods lod = Inl e"
proof (cases "length (scenes primary) = length (scenes lod)")
  case False
  then show ?thesis by (simp add: checkScenes_def)
next
  case True
  with assms obtain p l where pl: "(p, l) \<in> set (zip (scenes primary) (scenes lod))" "\<not> rootNodesMatch p l"
    by auto
  show ?thesis
  proof (cases "matchScenes (nodes primary) lods (zip (scenes primary) (scenes lod)) (False, 0)")
    case (Inl e)
    with True show ?thesis by (simp add: checkScenes_def)
  next
    case (Inr r)
    obtain m k where r: "r = (m, k)" by (cases r)
    from matchScenes_mismatch [OF pl, of "nodes primary" lods "(False, 0)" k] Inr r
    have "\<not> m" by auto
    with True Inr r show ?thesis by (simp add: checkScenes_def)
  qed
qed

text \<open>
  Claim C2. When a merge step fails with \<open>TopologyMismatch\<close>, the state of the loop of
  \<^verbatim>\<open>MergeDocumentsAsLODs\<close> is what it was before the step: the same primary document and
  the same registry. It fails so when the two documents differ in their number of scenes;
  and when the root nodes of some pair of scenes do not match (lines 127-129), the step
  fails, with this or an earlier exception, and the state is unchanged as well.
\<close>

theorem mergeStep_topology_atomic:
  "(fst (AddGLTFNodeLOD rj primary lods lod) = Inl TopologyMismatch \<longrightarrow>
      mergeStep rj (primary, lods) lod = (Some TopologyMismatch, primary, lods)) \<and>
   (length (scenes primary) \<noteq> length (scenes lod) \<longrightarrow>
      mergeStep rj (primary, lods) lod = (Some TopologyMismatch, primary, lods)) \<and>
   ((\<exists>(p, l) \<in> set (zip (scenes primary) (scenes lod)). \<not> rootNodesMatch p l) \<longrightarrow>
      (\<exists>e. mergeStep rj (primary, lods) lod = (Some e, primary, lods)))"
proof (intro conjI impI)
  assume "fst (AddGLTFNodeLOD rj primary lods lod) = Inl TopologyMismatch"
  from AddGLTFNodeLOD_TopologyMismatch [OF this]
  show "mergeStep rj (primary, lods) lod = (Some TopologyMismatch, primary, lods)"
    by (simp add: mergeStep_def)
next
  assume "length (scenes primary) \<noteq> length (scenes lod)"
  then have "checkScenes primary lods lod = Inl TopologyMismatch"
    by (simp add: checkScenes_def)
  then show "mergeStep rj (primary, lods) lod = (Some TopologyMismatch, primary, lods)"
    by (simp add: mergeStep_def AddGLTFNodeLOD_def)
next
  assume "\<exists>(p, l) \<in> set (zip (scenes primary) (scenes lod)). \<not> rootNodesMatch p l"
  then obtain e where "checkScenes primary lods lod = Inl e"
    using checkScenes_mismatch [of primary lod lods] by blast
  then show "\<exists>e. mergeStep rj (primary, lods) lod = (Some e, primary, lods)"
    by (simp add: mergeStep_def AddGLTFNodeLOD_def)
qed

theorem mergeStep_topology_atomic_witness:
  "mergeStep example_json (example_two_roots, [(''0'', []), (''1'', [])]) example_primary
     = (Some TopologyMismatch, example_two_roots, [(''0'', []), (''1'', [])]) \<and>
   mergeStep example_json (example_primary, [(''0'', [])]) example_shared_root
     = (Some TopologyMismatch, example_primary, [(''0'', [])])"
proof -
  have 1: "(\<exists>(p, l) \<in> set (zip (scenes example_two_roots) (scenes example_primary)). \<not> rootNodesMatch p l)"
    by (simp add: example_defs rootNodesMatch_def)
  have 2: "fst (AddGLTFNodeLOD example_json example_two_roots [(''0'', []), (''1'', [])] example_primary) = Inl TopologyMismatch"
    by (simp add: AddGLTFNodeLOD_def checkScenes_def rootNodesMatch_def example_defs)
  have 3: "length (scenes example_primary) \<noteq> length (scenes example_shared_root)"
    by (simp add: example_defs)
  from mergeStep_topology_atomic [of example_json example_two_roots "[(''0'', []), (''1'', [])]" example_primary] 1 2
    mergeStep_topology_atomic [of example_json example_primary "[(''0'', [])]" example_shared_root] 3
  show ?thesis by blast
qed


lemma Get_Inr: "Get c k = Inr e \<Longrightarrow> id' e = k \<and> e \<in> set c"
  by (auto simp: Get_def find_Some_iff split: option.splits)

lemma Get_Has: "Has c k \<Longrightarrow> \<exists>e. Get c k = Inr e"
  by (auto simp: Get_def Has_def find_None_iff split: option.splits)

lemma matchScenes_not_topology:
  "matchScenes ns lods pairs st \<noteq> Inl TopologyMismatch"
proof (induction pairs arbitrary: st)
  case Nil
  then show ?case by simp
next
  case (Cons a pairs)
  obtain p l where a: "a = (p, l)" by (cases a)
  obtain m k where st: "st = (m, k)" by (cases st)
  show ?case
    using Cons.IH
    by (auto simp: a st thenE_Inl_iff Get_not_topology LODMap_at_not_topology split: list.splits)
qed

lemma matchScenes_all_match:
  assumes "\<forall>(p, l) \<in> set pairs. rootNodesMatch p l" and "pairs \<noteq> [] \<or> fst st"
    and "matchScenes ns lods pairs st = Inr (m, k)"
  shows "m"
  using assms
proof (induction pairs arbitrary: st)
  case Nil
  then show ?case by auto
next
  case (Cons a pairs)
  obtain p l where a: "a = (p, l)" by (cases a)
  obtain m0 k0 where st: "st = (m0, k0)" by (cases st)
  from Cons.prems(1) a have ma: "rootNodesMatch p l" and rest: "\<forall>(p, l) \<in> set pairs. rootNodesMatch p l"
    by auto
  from Cons.prems(3) ma obtain k1 where "matchScenes ns lods pairs (True, k1) = Inr (m, k)"
    by (auto simp: a st thenE_Inr_iff split: list.splits)
  from Cons.IH [OF rest _ this] show ?case by simp
qed

lemma matchScenes_resolved:
  assumes "\<forall>(p, l) \<in> set pairs. rootNodesMatch p l \<and> scene_nodes p \<noteq> [] \<and>
              Has ns (hd (scene_nodes p)) \<and> map_of lods (hd (scene_nodes p)) \<noteq> None"
  shows "\<exists>r. matchScenes ns lods pairs st = Inr r"
  using assms
proof (induction pairs arbitrary: st)
  case Nil
  then show ?case by simp
next
  case (Cons a pairs)
  obtain p l where a: "a = (p, l)" by (cases a)
  obtain m0 k0 where st: "st = (m0, k0)" by (cases st)
  from Cons.prems a have ma: "rootNodesMatch p l" and ne: "scene_nodes p \<noteq> []"
    and h: "Has ns (hd (scene_nodes p))" and r: "map_of lods (hd (scene_nodes p)) \<noteq> None"
    and rest: "\<forall>(p, l) \<in> set pairs. rootNodesMatch p l \<and> scene_nodes p \<noteq> [] \<and>
              Has ns (hd (scene_nodes p)) \<and> map_of lods (hd (scene_nodes p)) \<noteq> None"
    by auto
  from ne obtain x xs where x: "scene_nodes p = x # xs" by (cases "scene_nodes p") auto
  from h x obtain e where e: "Get ns x = Inr e" using Get_Has [of ns x] by auto
  with Get_Inr [OF e] r x obtain ch where ch: "LODMap_at lods (id' e) = Inr ch"
    by (auto simp: LODMap_at_def)
  from Cons.IH [OF rest, of "(True, max k0 (length ch))"] ma x e ch show ?case
    by (simp add: a st)
qed

text \<open>
  Claim C10. Take two documents with the same number of scenes, at least one, where each
  scene of either has exactly one root node. Then the step does not fail with
  \<open>TopologyMismatch\<close>, whatever the two root identifiers are; and when every root node of
  the primary is a node of the primary with an entry in the registry (as it is for a
  well-formed document and the registry derived from it), the check of lines 115-150
  passes and the merge proceeds to the collections. The root sequences are compared when
  the candidate's scene does not have exactly one root node: a pair of scenes whose
  number of root nodes is not one and whose root sequences differ makes the step fail,
  and the registry is left as it was.
\<close>

theorem single_root_scenes_not_compared:
  "(length (scenes primary) = length (scenes lod) \<and> scenes primary \<noteq> [] \<and>
    (\<forall>(p, l) \<in> set (zip (scenes primary) (scenes lod)).
        length (scene_nodes p) = 1 \<and> length (scene_nodes l) = 1) \<longrightarrow>
      fst (AddGLTFNodeLOD rj primary lods lod) \<noteq> Inl TopologyMismatch \<and>
      ((\<forall>p \<in> set (scenes primary). \<forall>r \<in> set (scene_nodes p).
          Has (nodes primary) r \<and> map_of lods r \<noteq> None) \<longrightarrow>
        (\<exists>lvl. checkScenes primary lods lod = Inr lvl))) \<and>
   ((\<exists>(p, l) \<in> set (zip (scenes primary) (scenes lod)).
        length (scene_nodes l) \<noteq> 1 \<and> scene_nodes p \<noteq> scene_nodes l) \<longrightarrow>
      (\<exists>e. AddGLTFNodeLOD rj primary lods lod = (Inl e, lods)))"
proof (intro conjI impI)
  assume a: "length (scenes primary) = length (scenes lod) \<and> scenes primary \<noteq> [] \<and>
    (\<forall>(p, l) \<in> set (zip (scenes primary) (scenes lod)).
        length (scene_nodes p) = 1 \<and> length (scene_nodes l) = 1)"
  let ?pairs = "zip (scenes primary) (scenes lod)"
  from a have ne: "?pairs \<noteq> []" by (cases "scenes primary"; cases "scenes lod") auto
  from a have all: "\<forall>(p, l) \<in> set ?pairs. rootNodesMatch p l"
    by (auto simp: rootNodesMatch_def)
  have c: "checkScenes primary lods lod \<noteq> Inl TopologyMismatch"
  proof (cases "matchScenes (nodes primary) lods ?pairs (False, 0)")
    case (Inl e)
    with a matchScenes_not_topology [of "nodes primary" lods ?pairs "(False, 0)"] show ?thesis
      by (auto simp: checkScenes_def)
  next
    case (Inr r)
    obtain m k where r: "r = (m, k)" by (cases r)
    from matchScenes_all_match [OF all _ Inr [unfolded r]] ne have m by simp
    with a Inr r show ?thesis by (simp add: checkScenes_def)
  qed
  show "fst (AddGLTFNodeLOD rj primary lods lod) \<noteq> Inl TopologyMismatch"
    using c by (simp add: AddGLTFNodeLOD_TopologyMismatch_iff)
  assume b: "\<forall>p \<in> set (scenes primary). \<forall>r \<in> set (scene_nodes p).
          Has (nodes primary) r \<and> map_of lods r \<noteq> None"
  have "\<forall>(p, l) \<in> set ?pairs. rootNodesMatch p l \<and> scene_nodes p \<noteq> [] \<and>
              Has (nodes primary) (hd (scene_nodes p)) \<and> map_of lods (hd (scene_nodes p)) \<noteq> None"
  proof (clarify, intro conjI)
    fix p l
    assume pl: "(p, l) \<in> set ?pairs"
    with all show "rootNodesMatch p l" by auto
    from pl a show ne': "scene_nodes p \<noteq> []" by auto
    from pl have "p \<in> set (scenes primary)" by (rule set_zip_leftD)
    with b ne' show "Has (nodes primary) (hd (scene_nodes p))"
      and "map_of lods (hd (scene_nodes p)) \<noteq> None" by auto
  qed
  from matchScenes_resolved [OF this, of "(False, 0)"]
  obtain r where r: "matchScenes (nodes primary) lods ?pairs (False, 0) = Inr r" by blast
  obtain m k where mk: "r = (m, k)" by (cases r)
  from matchScenes_all_match [OF all _ r [unfolded mk]] ne have m by simp
  with a r mk show "\<exists>lvl. checkScenes primary lods lod = Inr lvl"
    by (simp add: checkScenes_def)
next
  assume "\<exists>(p, l) \<in> set (zip (scenes primary) (scenes lod)).
        length (scene_nodes l) \<noteq> 1 \<and> scene_nodes p \<noteq> scene_nodes l"
  then have "\<exists>(p, l) \<in> set (zip (scenes primary) (scenes lod)). \<not> rootNodesMatch p l"
    by (auto simp: rootNodesMatch_def)
  then obtain e where "checkScenes primary lods lod = Inl e"
    using checkScenes_mismatch [of primary lod lods] by blast
  then show "\<exists>e. AddGLTFNodeLOD rj primary lods lod = (Inl e, lods)"
    by (simp add: AddGLTFNodeLOD_def)
qed

lemmas step_eval = AddGLTFNodeLOD_def checkScenes_def rootNodesMatch_def mergeCollections_def
  rootPairs_def lodRootIdx_def int_of_size_t_def container_eval lodmap_eval offsetId_def
  offsetMaterial_def offsetMesh_def offsetNode_def offsetPrimitive_def AddIndexOffset_def
  stoi_eval size_t_of_def SIZE_WIDTH_def to_string_eval to_string_int_def patchExtension_def
  EXTENSION_MSFT_PACKING_ORM_def Let_def

text \<open>
  The root node of the primary's scene is 0, that of the candidate's scene is 1: the step
  succeeds, and the registry gets the candidate's root. Two root nodes in another order
  fail.
\<close>

theorem single_root_scenes_not_compared_witness:
  "map scene_nodes (scenes example_primary) = [[''0'']] \<and>
   map scene_nodes (scenes example_second_root) = [[''1'']] \<and>
   checkScenes example_primary [(''0'', [])] example_second_root = Inr 1 \<and>
   fst (AddGLTFNodeLOD example_json example_primary [(''0'', [])] example_second_root) \<noteq> Inl TopologyMismatch \<and>
   map_sum id entity_counts
     (fst (AddGLTFNodeLOD example_json example_primary [(''0'', [])] example_second_root))
     = Inr [0, 0, 0, 0, 0, 0, 1, 1, 3, 1] \<and>
   snd (AddGLTFNodeLOD example_json example_primary [(''0'', [])] example_second_root)
     = [(''0'', [''2''])] \<and>
   AddGLTFNodeLOD example_json example_two_roots [(''0'', []), (''1'', [])] example_two_roots_swapped
     = (Inl TopologyMismatch, [(''0'', []), (''1'', [])])"
proof -
  have 1: "length (scenes example_primary) = length (scenes example_second_root) \<and>
      scenes example_primary \<noteq> [] \<and>
      (\<forall>(p, l) \<in> set (zip (scenes example_primary) (scenes example_second_root)).
        length (scene_nodes p) = 1 \<and> length (scene_nodes l) = 1)"
    by (simp add: example_defs)
  have 2: "\<forall>p \<in> set (scenes example_primary). \<forall>r \<in> set (scene_nodes p).
          Has (nodes example_primary) r \<and> map_of [(''0'', [])] r \<noteq> None"
    by (simp add: example_defs Has_def)
  have 3: "\<exists>(p, l) \<in> set (zip (scenes example_two_roots) (scenes example_two_roots_swapped)).
        length (scene_nodes l) \<noteq> 1 \<and> scene_nodes p \<noteq> scene_nodes l"
    by (simp add: example_defs)
  have 4: "checkScenes example_primary [(''0'', [])] example_second_root = Inr 1"
    by (simp add: checkScenes_def rootNodesMatch_def example_defs container_eval lodmap_eval)
  have 5: "fst (AddGLTFNodeLOD example_json example_two_roots [(''0'', []), (''1'', [])] example_two_roots_swapped)
     = Inl TopologyMismatch"
    by (simp add: AddGLTFNodeLOD_def checkScenes_def rootNodesMatch_def example_defs)
  have 6: "map scene_nodes (scenes example_primary) = [[''0'']] \<and>
      map scene_nodes (scenes example_second_root) = [[''1'']]"
    by (simp add: example_defs)
  have 7: "map_sum id entity_counts
      (fst (AddGLTFNodeLOD example_json example_primary [(''0'', [])] example_second_root))
      = Inr [0, 0, 0, 0, 0, 0, 1, 1, 3, 1] \<and>
    snd (AddGLTFNodeLOD example_json example_primary [(''0'', [])] example_second_root)
      = [(''0'', [''2''])]"
    by (simp add: step_eval example_defs entity_counts_def)
  from single_root_scenes_not_compared [of example_primary example_second_root example_json "[(''0'', [])]"] 1 2
  have a: "fst (AddGLTFNodeLOD example_json example_primary [(''0'', [])] example_second_root) \<noteq> Inl TopologyMismatch"
    by blast
  from single_root_scenes_not_compared [of example_two_roots example_two_roots_swapped example_json "[(''0'', []), (''1'', [])]"] 3
  obtain e where "AddGLTFNodeLOD example_json example_two_roots [(''0'', []), (''1'', [])] example_two_roots_swapped
     = (Inl e, [(''0'', []), (''1'', [])])"
    by blast
  with 5 have b: "AddGLTFNodeLOD example_json example_two_roots [(''0'', []), (''1'', [])] example_two_roots_swapped
     = (Inl TopologyMismatch, [(''0'', []), (''1'', [])])"
    by simp
  from 6 4 7 a b show ?thesis by blast
qed

lemma map_of_emplace_back:
  "map_of (emplace_back m k v) k' =
     (if k' = k then map_option (\<lambda>chain. chain @ [v]) (map_of m k) else map_of m k')"
  by (induction m) (auto simp: emplace_back_def)

lemma map_fst_emplace_back: "map fst (emplace_back m k v) = map fst m"
  by (induction m) (auto simp: emplace_back_def)

lemma updateLods_None:
  assumes "updateLods ns off pairs lods = (None, lods')"
  shows "map fst lods' = map fst lods \<and>
         (\<exists>added. map_of lods' k = map_option (\<lambda>chain. chain @ added) (map_of lods k) \<and>
            list_all2 (\<lambda>pr a. \<exists>r. lodRootIdx off (snd pr) = Inr r \<and> a = to_string_int r)
              (filter (\<lambda>pr. fst pr = k) pairs) added)"
  using assms
proof (induction pairs arbitrary: lods)
  case Nil
  then show ?case by (auto simp: option.map_ident)
next
  case (Cons a pairs)
  obtain idx lodId where a: "a = (idx, lodId)" by (cases a)
  from Cons.prems obtain n r where n: "Get ns idx = Inr n" and r: "lodRootIdx off lodId = Inr r"
    and rest: "updateLods ns off pairs (emplace_back lods (id' n) (to_string_int r)) = (None, lods')"
    by (auto simp: a split: sum.splits)
  from Get_Inr [OF n] have idn: "id' n = idx" by simp
  from Cons.IH [OF rest [unfolded idn]] obtain added where
    k: "map fst lods' = map fst lods"
    and m: "map_of lods' k = map_option (\<lambda>chain. chain @ added) (map_of (emplace_back lods idx (to_string_int r)) k)"
    and l: "list_all2 (\<lambda>pr a. \<exists>r. lodRootIdx off (snd pr) = Inr r \<and> a = to_string_int r)
              (filter (\<lambda>pr. fst pr = k) pairs) added"
    by (auto simp: map_fst_emplace_back)
  show ?case
  proof (cases "k = idx")
    case True
    with m have "map_of lods' k = map_option (\<lambda>chain. chain @ (to_string_int r # added)) (map_of lods k)"
      by (simp add: map_of_emplace_back option.map_comp comp_def)
    with k l r True show ?thesis
      by (intro conjI exI [of _ "to_string_int r # added"]) (auto simp: a)
  next
    case False
    with m have "map_of lods' k = map_option (\<lambda>chain. chain @ added) (map_of lods k)"
      by (simp add: map_of_emplace_back)
    with k l False show ?thesis
      by (intro conjI exI [of _ added]) (auto simp: a)
  qed
qed

lemma checkScenes_Inr_match:
  assumes "checkScenes primary lods lod = Inr lvl"
  shows "\<forall>(p, l) \<in> set (zip (scenes primary) (scenes lod)). rootNodesMatch p l"
proof (rule ccontr)
  assume "\<not> ?thesis"
  then have "\<exists>(p, l) \<in> set (zip (scenes primary) (scenes lod)). \<not> rootNodesMatch p l"
    by auto
  from checkScenes_mismatch [of primary lod lods] this assms show False by auto
qed

lemma map_fst_rootPairs:
  assumes "length ps = length ls"
    and "\<forall>(p, l) \<in> set (zip ps ls). length (scene_nodes p) = length (scene_nodes l)"
  shows "map fst (rootPairs ps ls) = concat (map scene_nodes ps)"
  using assms
proof (induction ps ls rule: list_induct2)
  case Nil
  then show ?case by (simp add: rootPairs_def)
next
  case (Cons p ps l ls)
  then show ?case by (simp add: rootPairs_def map_concat)
qed

lemma length_filter_fst: "length (filter (\<lambda>pr. fst pr = k) pairs) = count_list (map fst pairs) k"
  by (induction pairs) auto

lemma AddGLTFNodeLOD_Inr_registry:
  assumes "AddGLTFNodeLOD rj primary lods lod = (Inr g, lods')"
  shows "map fst lods' = map fst lods \<and>
     (\<forall>k. \<exists>added.
         map_of lods' k = map_option (\<lambda>chain. chain @ added) (map_of lods k) \<and>
         length added = count_list (concat (map scene_nodes (scenes primary))) k \<and>
         list_all2 (\<lambda>pr a. \<exists>r. lodRootIdx (length (nodes primary)) (snd pr) = Inr r \<and> a = to_string_int r)
           (filter (\<lambda>pr. fst pr = k) (rootPairs (scenes primary) (scenes lod))) added)"
proof -
  from assms obtain lvl where c: "checkScenes primary lods lod = Inr lvl"
    and u: "updateLods (nodes g) (length (nodes primary)) (rootPairs (scenes primary) (scenes lod)) lods = (None, lods')"
    by (rule AddGLTFNodeLOD_Inr)
  from checkScenes_Inr_match [OF c]
  have "\<forall>(p, l) \<in> set (zip (scenes primary) (scenes lod)). length (scene_nodes p) = length (scene_nodes l)"
    by (auto simp: rootNodesMatch_def)
  with checkScenes_Inr(1) [OF c]
  have roots: "map fst (rootPairs (scenes primary) (scenes lod)) = concat (map scene_nodes (scenes primary))"
    by (rule map_fst_rootPairs)
  show ?thesis
  proof (intro conjI allI)
    show "map fst lods' = map fst lods"
      using updateLods_None [OF u] by simp
  next
    fix k
    from updateLods_None [OF u, of k] obtain added where
      a: "map_of lods' k = map_option (\<lambda>chain. chain @ added) (map_of lods k)"
      and l: "list_all2 (\<lambda>pr a. \<exists>r. lodRootIdx (length (nodes primary)) (snd pr) = Inr r \<and> a = to_string_int r)
           (filter (\<lambda>pr. fst pr = k) (rootPairs (scenes primary) (scenes lod))) added"
      by blast
    from list_all2_lengthD [OF l] have "length added = count_list (concat (map scene_nodes (scenes primary))) k"
      by (simp add: length_filter_fst roots)
    with a l show "\<exists>added.
         map_of lods' k = map_option (\<lambda>chain. chain @ added) (map_of lods k) \<and>
         length added = count_list (concat (map scene_nodes (scenes primary))) k \<and>
         list_all2 (\<lambda>pr a. \<exists>r. lodRootIdx (length (nodes primary)) (snd pr) = Inr r \<and> a = to_string_int r)
           (filter (\<lambda>pr. fst pr = k) (rootPairs (scenes primary) (scenes lod))) added"
      by blast
  qed
qed

lemma zip_conv_nth_map:
  "length xs = length ys \<Longrightarrow> zip xs ys = map (\<lambda>i. (xs ! i, ys ! i)) [0..<length xs]"
  by (rule nth_equalityI) simp_all

lemma rootPairs_nth:
  assumes "length ps = length ls"
    and "\<forall>s<length ps. length (scene_nodes (ps ! s)) = length (scene_nodes (ls ! s))"
  shows "rootPairs ps ls =
     concat (map (\<lambda>s. map (\<lambda>j. (scene_nodes (ps ! s) ! j, scene_nodes (ls ! s) ! j))
                        [0..<length (scene_nodes (ps ! s))]) [0..<length ps])"
proof -
  have "rootPairs ps ls =
      concat (map (\<lambda>s. zip (scene_nodes (ps ! s)) (scene_nodes (ls ! s))) [0..<length ps])"
    unfolding rootPairs_def zip_conv_nth_map [OF assms(1)] by (simp add: comp_def)
  also have "map (\<lambda>s. zip (scene_nodes (ps ! s)) (scene_nodes (ls ! s))) [0..<length ps] =
      map (\<lambda>s. map (\<lambda>j. (scene_nodes (ps ! s) ! j, scene_nodes (ls ! s) ! j))
                        [0..<length (scene_nodes (ps ! s))]) [0..<length ps]"
    using assms(2) by (intro map_cong refl zip_conv_nth_map) simp
  finally show ?thesis .
qed

lemma filter_map_positions:
  "filter P (map (f s) js) =
     map (\<lambda>(s, j). f s j) (concat (map (\<lambda>j. if P (f s j) then [(s, j)] else []) js))"
  by (induction js) simp_all

lemma filter_concat_positions:
  "filter P (concat (map (\<lambda>s. map (f s) (B s)) A)) =
     map (\<lambda>(s, j). f s j)
       (concat (map (\<lambda>s. concat (map (\<lambda>j. if P (f s j) then [(s, j)] else []) (B s))) A))"
  by (induction A) (simp_all add: filter_map_positions)

lemma lodRootIdx_Inr:
  assumes "lodRootIdx n lodRootId = Inr r"
  shows "\<exists>v. stoi lodRootId = Inr v \<and> r = v + int_of_size_t n"
  using assms by (auto simp: lodRootIdx_def Let_def thenE_Inr_iff split: if_splits)

lemma int_of_size_t_cast:
  "- (2 ^ 31) \<le> int_of_size_t n \<and> int_of_size_t n < 2 ^ 31 \<and>
   (int_of_size_t n - int n) mod 2 ^ 32 = 0"
proof -
  define m where "m = int n mod 2 ^ 32"
  have m: "0 \<le> m" "m < 2 ^ 32" by (simp_all add: m_def)
  have c: "(m - int n) mod 2 ^ 32 = 0"
    unfolding m_def by (simp add: mod_diff_left_eq)
  have c': "(m - 2 ^ 32 - int n) mod 2 ^ 32 = 0"
  proof -
    from c have "(2 ^ 32 :: int) dvd m - int n" by (simp add: mod_eq_0_iff_dvd)
    then have "(2 ^ 32 :: int) dvd (m - int n) - 2 ^ 32" by (rule dvd_diff) simp
    then show ?thesis by (simp add: mod_eq_0_iff_dvd algebra_simps)
  qed
  have i: "int_of_size_t n = (if m \<le> 2 ^ 31 - 1 then m else m - 2 ^ 32)"
    by (simp add: int_of_size_t_def Let_def INT_MAX_def m_def)
  show ?thesis
  proof (cases "m \<le> 2 ^ 31 - 1")
    case True
    with m c i show ?thesis by simp
  next
    case False
    with m c' i show ?thesis by simp
  qed
qed

text \<open>
  Claim C3, as the code has it. After a successful merge step the registry has the same
  keys, the two documents have as many scenes and as many root nodes in each, and the
  chain of every node \<open>k\<close> is its chain before the step followed by the entries \<open>added\<close>:
  one for each place \<open>(s, j)\<close> where \<open>k\<close> is the \<open>j\<close>-th root node of the \<open>s\<close>-th scene of the
  primary, in the order of the scenes and of the root nodes of each. The entry for the
  place \<open>(s, j)\<close> is the decimal text of \<open>v + off\<close>, where \<open>v\<close> is the number that \<^verbatim>\<open>std::stoi\<close>
  reads in the \<open>j\<close>-th root node of the \<open>s\<close>-th scene of the candidate, and \<open>off\<close> is the
  size of the primary's node collection as line 344 casts it to \<^verbatim>\<open>int\<close>: the 32-bit
  integer congruent to it modulo \<open>2 ^ 32\<close>, which is the size itself below \<open>2 ^ 31\<close>. So the
  chain of a node that is the root of one scene only grows by exactly one entry, the
  chain of a node that is no root is unchanged, and the chain of a node that is a root
  \<open>n\<close> times grows by \<open>n\<close>.
\<close>

theorem AddGLTFNodeLOD_registry:
  assumes "AddGLTFNodeLOD rj primary lods lod = (Inr g, lods')"
  shows "map fst lods' = map fst lods \<and>
     length (scenes lod) = length (scenes primary) \<and>
     (\<forall>s<length (scenes primary).
         length (scene_nodes (scenes lod ! s)) = length (scene_nodes (scenes primary ! s))) \<and>
     (\<exists>off. - (2 ^ 31) \<le> off \<and> off < 2 ^ 31 \<and> (off - int (length (nodes primary))) mod 2 ^ 32 = 0 \<and>
       (\<forall>k. \<exists>added.
           map_of lods' k = map_option (\<lambda>chain. chain @ added) (map_of lods k) \<and>
           length added = count_list (concat (map scene_nodes (scenes primary))) k \<and>
           list_all2
             (\<lambda>(s, j) a. \<exists>v. stoi (scene_nodes (scenes lod ! s) ! j) = Inr v \<and> a = to_string_int (v + off))
             [(s, j). s \<leftarrow> [0..<length (scenes primary)],
                      j \<leftarrow> [0..<length (scene_nodes (scenes primary ! s))],
                      scene_nodes (scenes primary ! s) ! j = k]
             added))"
proof -
  from assms obtain lvl where c: "checkScenes primary lods lod = Inr lvl"
    by (rule AddGLTFNodeLOD_Inr)
  note len = checkScenes_Inr(1) [OF c]
  have lens: "\<forall>s<length (scenes primary).
         length (scene_nodes (scenes lod ! s)) = length (scene_nodes (scenes primary ! s))"
  proof (intro allI impI)
    fix s assume s: "s < length (scenes primary)"
    with len have "(scenes primary ! s, scenes lod ! s) \<in> set (zip (scenes primary) (scenes lod))"
      by (auto simp: set_zip)
    with checkScenes_Inr_match [OF c]
    show "length (scene_nodes (scenes lod ! s)) = length (scene_nodes (scenes primary ! s))"
      by (auto simp: rootNodesMatch_def)
  qed
  let ?n = "length (nodes primary)"
  let ?pos = "\<lambda>k. [(s, j). s \<leftarrow> [0..<length (scenes primary)],
                      j \<leftarrow> [0..<length (scene_nodes (scenes primary ! s))],
                      scene_nodes (scenes primary ! s) ! j = k]"
  have pairs: "filter (\<lambda>pr. fst pr = k) (rootPairs (scenes primary) (scenes lod)) =
      map (\<lambda>(s, j). (scene_nodes (scenes primary ! s) ! j, scene_nodes (scenes lod ! s) ! j)) (?pos k)" for k
    using lens by (subst rootPairs_nth [OF len]) (simp_all add: filter_concat_positions)
  note R = AddGLTFNodeLOD_Inr_registry [OF assms]
  have "\<exists>added.
           map_of lods' k = map_option (\<lambda>chain. chain @ added) (map_of lods k) \<and>
           length added = count_list (concat (map scene_nodes (scenes primary))) k \<and>
           list_all2
             (\<lambda>(s, j) a. \<exists>v. stoi (scene_nodes (scenes lod ! s) ! j) = Inr v \<and>
                 a = to_string_int (v + int_of_size_t ?n))
             (?pos k) added" for k
  proof -
    from R obtain added where a: "map_of lods' k = map_option (\<lambda>chain. chain @ added) (map_of lods k)"
      "length added = count_list (concat (map scene_nodes (scenes primary))) k"
      "list_all2 (\<lambda>pr a. \<exists>r. lodRootIdx ?n (snd pr) = Inr r \<and> a = to_string_int r)
           (filter (\<lambda>pr. fst pr = k) (rootPairs (scenes primary) (scenes lod))) added"
      by blast
    from a(3) have "list_all2
             (\<lambda>(s, j) a. \<exists>v. stoi (scene_nodes (scenes lod ! s) ! j) = Inr v \<and>
                 a = to_string_int (v + int_of_size_t ?n))
             (?pos k) added"
      unfolding pairs list_all2_map1
      by (rule list_all2_mono) (auto dest: lodRootIdx_Inr)
    with a(1,2) show ?thesis by blast
  qed
  with int_of_size_t_cast [of ?n] len lens R show ?thesis
    by (intro conjI exI [of _ "int_of_size_t ?n"]) auto
qed

lemma example_two_roots_step:
  "\<exists>g. AddGLTFNodeLOD example_json example_two_roots [(''0'', []), (''1'', [])] example_two_roots
     = (Inr g, [(''0'', [''2'']), (''1'', [''3''])])"
  by (simp add: step_eval example_defs)


text \<open>
  A scene with the two root nodes 0 and 1, merged with itself: the node 0 gets the entry
  for the candidate's root 0, the node 1 that for the candidate's root 1, both shifted by
  the two nodes of the primary.
\<close>

theorem AddGLTFNodeLOD_registry_witness:
  "snd (AddGLTFNodeLOD example_json example_two_roots [(''0'', []), (''1'', [])] example_two_roots)
     = [(''0'', [''2'']), (''1'', [''3''])] \<and>
   map scene_nodes (scenes example_two_roots) = [[''0'', ''1'']] \<and>
   length (nodes example_two_roots) = 2 \<and>
   stoi ''0'' = Inr 0 \<and> stoi ''1'' = Inr 1 \<and>
   to_string_int (0 + 2) = ''2'' \<and> to_string_int (1 + 2) = ''3''"
proof -
  obtain g where g: "AddGLTFNodeLOD example_json example_two_roots [(''0'', []), (''1'', [])] example_two_roots
      = (Inr g, [(''0'', [''2'']), (''1'', [''3''])])"
    using example_two_roots_step by blast
  from AddGLTFNodeLOD_registry [OF g] g show ?thesis
    by (simp add: example_defs stoi_eval to_string_int_def to_string_eval)
qed

text \<open>
  The claim as it is written fails where two scenes share their root node: the step
  succeeds and the chain of that node grows by two entries.
\<close>

theorem AddGLTFNodeLOD_shared_root_counterexample:
  "map_sum id entity_counts
     (fst (AddGLTFNodeLOD example_json example_shared_root [(''0'', [])] example_shared_root))
     = Inr [0, 0, 0, 0, 0, 0, 0, 0, 2, 2] \<and>
   snd (AddGLTFNodeLOD example_json example_shared_root [(''0'', [])] example_shared_root)
     = [(''0'', [''1'', ''1''])]"
  by (simp add: step_eval example_defs entity_counts_def)


section \<open>Merging a list of documents\<close>

lemma find_first_index:
  "find P xs = (case first_index P xs of None \<Rightarrow> None | Some i \<Rightarrow> Some (xs ! i))"
  by (induction xs) (auto split: option.splits)

lemma first_index_update_same:
  "first_index P xs = Some i \<Longrightarrow> P y \<Longrightarrow> first_index P (xs[i := y]) = Some i"
proof (induction xs arbitrary: i)
  case Nil
  then show ?case by simp
next
  case (Cons x xs)
  then show ?case by (cases i) (auto split: if_splits)
qed

lemma first_index_update_other:
  "first_index P xs = Some i \<Longrightarrow> \<not> Q (xs ! i) \<Longrightarrow> \<not> Q y \<Longrightarrow>
     first_index Q (xs[i := y]) = first_index Q xs"
proof (induction xs arbitrary: i)
  case Nil
  then show ?case by simp
next
  case (Cons x xs)
  then show ?case by (cases i) (auto split: if_splits)
qed

lemma Replace_Inr:
  assumes "Replace c e = Inr c'"
  obtains i where "first_index (\<lambda>x. id' x = id' e) c = Some i" and "c' = c[i := e]" and "i < length c"
    and "id' (c ! i) = id' e"
  using assms first_index_Some [of "\<lambda>x. id' x = id' e" c]
  by (auto simp: Replace_def GetIndex_def thenE_Inr_iff split: if_splits option.splits)

lemma Replace_ids: "Replace c e = Inr c' \<Longrightarrow> map id' c' = map id' c"
  by (erule Replace_Inr) (simp add: map_update list_update_same_conv)

lemma Replace_length: "Replace c e = Inr c' \<Longrightarrow> length c' = length c"
  by (erule Replace_Inr) simp

lemma Get_Replace_same:
  assumes "Replace c e = Inr c'"
  shows "Get c' (id' e) = Inr e"
proof -
  from assms obtain i where i: "first_index (\<lambda>x. id' x = id' e) c = Some i" "c' = c[i := e]" "i < length c"
    by (rule Replace_Inr)
  from first_index_update_same [OF i(1), of e] i(2,3) show ?thesis
    by (simp add: Get_def find_first_index)
qed

lemma Get_Replace_other:
  assumes "Replace c e = Inr c'" and "k \<noteq> id' e"
  shows "Get c' k = Get c k"
proof -
  from assms(1) obtain i where i: "first_index (\<lambda>x. id' x = id' e) c = Some i" "c' = c[i := e]" "i < length c"
    "id' (c ! i) = id' e"
    by (rule Replace_Inr)
  have fi: "first_index (\<lambda>x. id' x = k) c' = first_index (\<lambda>x. id' x = k) c"
    unfolding i(2) using i(4) assms(2)
    by (intro first_index_update_other [OF i(1)]) auto
  show ?thesis
  proof (cases "first_index (\<lambda>x. id' x = k) c")
    case None
    with fi show ?thesis by (simp add: Get_def find_first_index)
  next
    case (Some j)
    from first_index_Some [OF Some] i(4) assms(2) have "j \<noteq> i" by auto
    with fi Some i(2) show ?thesis by (simp add: Get_def find_first_index)
  qed
qed

lemma screenCoverageExtras_Inr:
  assumes "screenCoverageExtras rj cov old = Inr e"
  shows "\<exists>members. e = WriterGetString rj (JObject (members @ [(''MSFT_screencoverage'', JArray (map JDouble cov))])) \<and>
           (if old = [] then members = [] else DocumentParse rj (JObject []) old = JObject members)"
  using assms
  by (auto simp: screenCoverageExtras_def Let_def AddMember_def thenE_Inr_iff split: json.splits if_splits)

lemma screenCoverageLoop_Inr:
  assumes "screenCoverageLoop rj cov ns roots = Inr ns'"
  shows "map id' ns' = map id' ns \<and>
         (\<forall>k. k \<notin> set roots \<longrightarrow> Get ns' k = Get ns k) \<and>
         (\<forall>r \<in> set roots. \<exists>n0. Get ns r = Inr n0) \<and>
         (\<forall>r n0. Get ns r = Inr n0 \<longrightarrow>
            (\<exists>n es. Get ns' r = Inr n \<and> n = n0\<lparr>extras := extras n\<rparr> \<and>
               length es = Suc (count_list roots r) \<and> es ! 0 = extras n0 \<and>
               es ! count_list roots r = extras n \<and>
               (\<forall>i < count_list roots r. screenCoverageExtras rj cov (es ! i) = Inr (es ! Suc i))))"
  using assms
proof (induction roots arbitrary: ns)
  case Nil
  then have "ns' = ns" by simp
  then show ?case
    by (auto intro!: exI [of _ "[extras n0]" for n0])
next
  case (Cons q roots)
  from Cons.prems obtain nq e ns1 where nq: "Get ns q = Inr nq"
    and e: "screenCoverageExtras rj cov (extras nq) = Inr e"
    and ns1: "Replace ns (nq\<lparr>extras := e\<rparr>) = Inr ns1"
    and rest: "screenCoverageLoop rj cov ns1 roots = Inr ns'"
    by (auto simp: thenE_Inr_iff)
  from Get_Inr [OF nq] have idn: "id' nq = q" by simp
  then have idn': "id' (nq\<lparr>extras := e\<rparr>) = q" by simp
  note IH = Cons.IH [OF rest]
  have g1: "Get ns1 q = Inr (nq\<lparr>extras := e\<rparr>)"
    using Get_Replace_same [OF ns1] idn' by simp
  have g2: "Get ns1 k = Get ns k" if "k \<noteq> q" for k
    using Get_Replace_other [OF ns1, of k] idn' that by simp
  show ?case
  proof (intro conjI allI impI ballI)
    show "map id' ns' = map id' ns"
      using IH Replace_ids [OF ns1] by simp
  next
    fix k assume "k \<notin> set (q # roots)"
    then show "Get ns' k = Get ns k" using IH g2 [of k] by auto
  next
    fix r assume "r \<in> set (q # roots)"
    then show "\<exists>n0. Get ns r = Inr n0"
    proof (cases "r = q")
      case True
      with nq show ?thesis by simp
    next
      case False
      with \<open>r \<in> set (q # roots)\<close> have "r \<in> set roots" by simp
      with IH obtain n0 where "Get ns1 r = Inr n0" by blast
      with g2 [OF False] show ?thesis by metis
    qed
  next
    fix r n0 assume n0: "Get ns r = Inr n0"
    show "\<exists>n es. Get ns' r = Inr n \<and> n = n0\<lparr>extras := extras n\<rparr> \<and>
               length es = Suc (count_list (q # roots) r) \<and> es ! 0 = extras n0 \<and>
               es ! count_list (q # roots) r = extras n \<and>
               (\<forall>i < count_list (q # roots) r. screenCoverageExtras rj cov (es ! i) = Inr (es ! Suc i))"
    proof (cases "r = q")
      case False
      with n0 g2 [of r] have "Get ns1 r = Inr n0" by simp
      with IH False show ?thesis by simp
    next
      case True
      with n0 nq have n0q: "n0 = nq" by simp
      from IH g1 obtain n es where n: "Get ns' q = Inr n" "n = (nq\<lparr>extras := e\<rparr>)\<lparr>extras := extras n\<rparr>"
        "length es = Suc (count_list roots q)" "es ! 0 = extras (nq\<lparr>extras := e\<rparr>)"
        "es ! count_list roots q = extras n"
        "\<forall>i < count_list roots q. screenCoverageExtras rj cov (es ! i) = Inr (es ! Suc i)"
        by blast
      from n(2) have n2: "n = nq\<lparr>extras := extras n\<rparr>" by simp
      have steps: "\<forall>i < Suc (count_list roots q).
          screenCoverageExtras rj cov ((extras nq # es) ! i) = Inr ((extras nq # es) ! Suc i)"
      proof (intro allI impI)
        fix i assume i: "i < Suc (count_list roots q)"
        show "screenCoverageExtras rj cov ((extras nq # es) ! i) = Inr ((extras nq # es) ! Suc i)"
          using i e n(4,6) by (cases i) auto
      qed
      from n(1,3,5) n2 steps True n0q show ?thesis
        by (intro exI [of _ n] exI [of _ "extras nq # es"]) simp
    qed
  qed
qed

text \<open>
  Claim C8. With an empty sequence of screen coverage values the result is the merged
  document itself. With a sequence that is not empty, and when both calls return, the
  result is the merged document with other nodes: they have the same ids in the same
  order; a node that is no root node of a scene is the node of the merged document; and
  every root node \<open>r\<close> of every scene is the node of the merged document with nothing but
  its \<^verbatim>\<open>extras\<close> changed. The loop of lines 410-435 visits \<open>r\<close> once for each place where it
  stands among the root nodes of the scenes; \<open>es\<close> lists the \<^verbatim>\<open>extras\<close> of \<open>r\<close> before the
  first visit (those of the merged document) and after each visit (the last are those of
  the result). Each visit writes the text of a JSON object that ends with the member
  \<^verbatim>\<open>MSFT_screencoverage\<close>, the array of the values in their order, after all the members
  of the object read from the \<^verbatim>\<open>extras\<close> as they were before this visit (none when they
  were empty). For a node that is a root node once, \<open>es\<close> is the \<^verbatim>\<open>extras\<close> of the merged
  document followed by those of the result.
\<close>

theorem MergeDocumentsAsLODs_coverage_extras:
  "MergeDocumentsAsLODs_coverage rj docs [] = MergeDocumentsAsLODs rj docs \<and>
   (cov \<noteq> [] \<and> MergeDocumentsAsLODs rj docs = Inr merged \<and>
    MergeDocumentsAsLODs_coverage rj docs cov = Inr result \<longrightarrow>
      result = merged\<lparr>nodes := nodes result\<rparr> \<and>
      map id' (nodes result) = map id' (nodes merged) \<and>
      (\<forall>k. k \<notin> set (concat (map scene_nodes (scenes merged))) \<longrightarrow>
          Get (nodes result) k = Get (nodes merged) k) \<and>
      (\<forall>r \<in> set (concat (map scene_nodes (scenes result))). \<exists>n n0 es.
          Get (nodes result) r = Inr n \<and> Get (nodes merged) r = Inr n0 \<and>
          n = n0\<lparr>extras := extras n\<rparr> \<and>
          length es = Suc (count_list (concat (map scene_nodes (scenes merged))) r) \<and>
          hd es = extras n0 \<and> last es = extras n \<and>
          (\<forall>i < count_list (concat (map scene_nodes (scenes merged))) r. \<exists>members.
              (if es ! i = [] then members = []
               else DocumentParse rj (JObject []) (es ! i) = JObject members) \<and>
              es ! Suc i = WriterGetString rj
                (JObject (members @ [(''MSFT_screencoverage'', JArray (map JDouble cov))])))))"
proof (intro conjI impI)
  show "MergeDocumentsAsLODs_coverage rj docs [] = MergeDocumentsAsLODs rj docs"
    by (cases "MergeDocumentsAsLODs rj docs") (simp_all add: MergeDocumentsAsLODs_coverage_def)
next
  assume a: "cov \<noteq> [] \<and> MergeDocumentsAsLODs rj docs = Inr merged \<and>
    MergeDocumentsAsLODs_coverage rj docs cov = Inr result"
  let ?roots = "concat (map scene_nodes (scenes merged))"
  from a obtain ns where ns: "screenCoverageLoop rj cov (nodes merged) ?roots = Inr ns"
    and res: "result = merged\<lparr>nodes := ns\<rparr>"
    by (auto simp: MergeDocumentsAsLODs_coverage_def thenE_Inr_iff)
  note L = screenCoverageLoop_Inr [OF ns]
  from res show "result = merged\<lparr>nodes := nodes result\<rparr>" by simp
  from res L show "map id' (nodes result) = map id' (nodes merged)" by simp
  from res L show "\<forall>k. k \<notin> set ?roots \<longrightarrow> Get (nodes result) k = Get (nodes merged) k" by simp
  show "\<forall>r \<in> set (concat (map scene_nodes (scenes result))). \<exists>n n0 es.
          Get (nodes result) r = Inr n \<and> Get (nodes merged) r = Inr n0 \<and>
          n = n0\<lparr>extras := extras n\<rparr> \<and>
          length es = Suc (count_list ?roots r) \<and>
          hd es = extras n0 \<and> last es = extras n \<and>
          (\<forall>i < count_list ?roots r. \<exists>members.
              (if es ! i = [] then members = []
               else DocumentParse rj (JObject []) (es ! i) = JObject members) \<and>
              es ! Suc i = WriterGetString rj
                (JObject (members @ [(''MSFT_screencoverage'', JArray (map JDouble cov))])))"
  proof
    fix r assume "r \<in> set (concat (map scene_nodes (scenes result)))"
    with res have r: "r \<in> set ?roots" by simp
    with L obtain n0 where n0: "Get (nodes merged) r = Inr n0" by blast
    with L obtain n es where n: "Get ns r = Inr n" "n = n0\<lparr>extras := extras n\<rparr>"
      "length es = Suc (count_list ?roots r)" "es ! 0 = extras n0"
      "es ! count_list ?roots r = extras n"
      "\<forall>i < count_list ?roots r. screenCoverageExtras rj cov (es ! i) = Inr (es ! Suc i)"
      by blast
    from n(3) have ne: "es \<noteq> []" by auto
    from n(3,4) ne have h: "hd es = extras n0" by (simp add: hd_conv_nth)
    from n(3,5) ne have l: "last es = extras n" by (simp add: last_conv_nth)
    have steps: "\<forall>i < count_list ?roots r. \<exists>members.
              (if es ! i = [] then members = []
               else DocumentParse rj (JObject []) (es ! i) = JObject members) \<and>
              es ! Suc i = WriterGetString rj
                (JObject (members @ [(''MSFT_screencoverage'', JArray (map JDouble cov))]))"
      using n(6) screenCoverageExtras_Inr [of rj cov] by blast
    from n(1,2,3) n0 h l steps res show "\<exists>n n0 es.
          Get (nodes result) r = Inr n \<and> Get (nodes merged) r = Inr n0 \<and>
          n = n0\<lparr>extras := extras n\<rparr> \<and>
          length es = Suc (count_list ?roots r) \<and>
          hd es = extras n0 \<and> last es = extras n \<and>
          (\<forall>i < count_list ?roots r. \<exists>members.
              (if es ! i = [] then members = []
               else DocumentParse rj (JObject []) (es ! i) = JObject members) \<and>
              es ! Suc i = WriterGetString rj
                (JObject (members @ [(''MSFT_screencoverage'', JArray (map JDouble cov))])))"
      by (intro exI [of _ n] exI [of _ n0] exI [of _ es]) simp
  qed
qed

lemmas merge_eval = MergeDocumentsAsLODs_def ParseDocumentNodeLODs_def ParseExtensionMSFTLod_def
  mergeStep_def SerializeExtensionMSFTLod_def extensions_emplace_def EXTENSION_MSFT_LOD_def
  step_eval json_eval

lemma example_merge_extras:
  \<open>map_sum id (\<lambda>d. map (\<lambda>n. (id' n, extensions n EXTENSION_MSFT_LOD, extras n)) (nodes d))
     (MergeDocumentsAsLODs example_json [example_extras, example_primary])
   = Inr [(''0'', Some ''{"ids":[1]}'', ''{"ids":[7]}''), (''1'', None, '''')]\<close>
  by (simp add: merge_eval example_defs)

lemmas coverage_eval = MergeDocumentsAsLODs_coverage_def screenCoverageExtras_def AddMember_def
  read_ids_def ids_prefix_def ids_suffix_def

lemma example_coverage:
  \<open>map_sum id (\<lambda>d. map (\<lambda>n. (id' n, extras n)) (nodes d))
     (MergeDocumentsAsLODs_coverage example_json [example_extras, example_primary] [100, 50])
   = Inr [(''0'', ''{"ids":[7],"MSFT_screencoverage":[100.0,50.0]}''), (''1'', [])]\<close>
  by (simp add: coverage_eval merge_eval example_defs)

lemmas members_eval = read_members_def read_member_def read_number_def example_json_members_def
  isdigit_def digits_val_def digit_of_def

lemma example_shared_merge:
  \<open>MergeDocumentsAsLODs example_json_members [example_shared_extras] = Inr example_shared_extras\<close>
  by (simp add: merge_eval example_shared_extras_def example_defs members_eval)

lemma example_shared_coverage:
  \<open>map_sum id (\<lambda>d. map (\<lambda>n. (id' n, extras n)) (nodes d))
     (MergeDocumentsAsLODs_coverage example_json_members [example_shared_extras] [100, 50])
   = Inr [(''0'', ''{"tag":[7],"MSFT_screencoverage":[100.0,50.0],"MSFT_screencoverage":[100.0,50.0]}'')]\<close>
  by (simp add: coverage_eval merge_eval example_shared_extras_def example_defs members_eval)

text \<open>
  First a root node that is the root of one scene, then a node that is the root of two
  scenes: it is visited twice, the second visit reads what the first has written, and the
  key that was there before is kept.
\<close>

theorem MergeDocumentsAsLODs_coverage_extras_witness:
  \<open>MergeDocumentsAsLODs_coverage example_json [example_extras, example_primary] []
     = MergeDocumentsAsLODs example_json [example_extras, example_primary] \<and>
   map_sum id (\<lambda>d. map (\<lambda>n. (id' n, extensions n EXTENSION_MSFT_LOD, extras n)) (nodes d))
     (MergeDocumentsAsLODs example_json [example_extras, example_primary])
     = Inr [(''0'', Some ''{"ids":[1]}'', ''{"ids":[7]}''), (''1'', None, [])] \<and>
   map_sum id (\<lambda>d. map (\<lambda>n. (id' n, extras n)) (nodes d))
     (MergeDocumentsAsLODs_coverage example_json [example_extras, example_primary] [100, 50])
     = Inr [(''0'', ''{"ids":[7],"MSFT_screencoverage":[100.0,50.0]}''), (''1'', [])] \<and>
   MergeDocumentsAsLODs example_json_members [example_shared_extras] = Inr example_shared_extras \<and>
   concat (map scene_nodes (scenes example_shared_extras)) = [''0'', ''0''] \<and>
   map (\<lambda>n. (id' n, extras n)) (nodes example_shared_extras) = [(''0'', ''{"tag":[7]}'')] \<and>
   map_sum id (\<lambda>d. map (\<lambda>n. (id' n, extras n)) (nodes d))
     (MergeDocumentsAsLODs_coverage example_json_members [example_shared_extras] [100, 50])
     = Inr [(''0'',
         ''{"tag":[7],"MSFT_screencoverage":[100.0,50.0],"MSFT_screencoverage":[100.0,50.0]}'')]\<close>
proof -
  let ?docs = "[example_extras, example_primary]"
  obtain merged where m: "MergeDocumentsAsLODs example_json ?docs = Inr merged"
    using example_merge_extras by (cases "MergeDocumentsAsLODs example_json ?docs") auto
  obtain result where r: "MergeDocumentsAsLODs_coverage example_json ?docs [100, 50] = Inr result"
    using example_coverage
    by (cases "MergeDocumentsAsLODs_coverage example_json ?docs [100, 50]") auto
  from MergeDocumentsAsLODs_coverage_extras [of example_json ?docs "[100, 50]" merged result] m r
  have "MergeDocumentsAsLODs_coverage example_json ?docs [] = MergeDocumentsAsLODs example_json ?docs"
    and "map id' (nodes result) = map id' (nodes merged)"
    by simp_all
  with example_merge_extras example_coverage m r
  have single: \<open>MergeDocumentsAsLODs_coverage example_json ?docs [] = MergeDocumentsAsLODs example_json ?docs \<and>
   map_sum id (\<lambda>d. map (\<lambda>n. (id' n, extensions n EXTENSION_MSFT_LOD, extras n)) (nodes d))
     (MergeDocumentsAsLODs example_json ?docs)
     = Inr [(''0'', Some ''{"ids":[1]}'', ''{"ids":[7]}''), (''1'', None, [])] \<and>
   map_sum id (\<lambda>d. map (\<lambda>n. (id' n, extras n)) (nodes d))
     (MergeDocumentsAsLODs_coverage example_json ?docs [100, 50])
     = Inr [(''0'', ''{"ids":[7],"MSFT_screencoverage":[100.0,50.0]}''), (''1'', [])]\<close>
    by (simp add: comp_def)
  obtain shared where s: "MergeDocumentsAsLODs_coverage example_json_members [example_shared_extras] [100, 50] = Inr shared"
    using example_shared_coverage
    by (cases "MergeDocumentsAsLODs_coverage example_json_members [example_shared_extras] [100, 50]") auto
  from MergeDocumentsAsLODs_coverage_extras
         [of example_json_members "[example_shared_extras]" "[100, 50]" example_shared_extras shared]
       example_shared_merge s
  have "map id' (nodes shared) = map id' (nodes example_shared_extras)"
    by simp
  with example_shared_merge example_shared_coverage s
  have shared: \<open>MergeDocumentsAsLODs example_json_members [example_shared_extras] = Inr example_shared_extras \<and>
   concat (map scene_nodes (scenes example_shared_extras)) = [''0'', ''0''] \<and>
   map (\<lambda>n. (id' n, extras n)) (nodes example_shared_extras) = [(''0'', ''{"tag":[7]}'')] \<and>
   map_sum id (\<lambda>d. map (\<lambda>n. (id' n, extras n)) (nodes d))
     (MergeDocumentsAsLODs_coverage example_json_members [example_shared_extras] [100, 50])
     = Inr [(''0'',
         ''{"tag":[7],"MSFT_screencoverage":[100.0,50.0],"MSFT_screencoverage":[100.0,50.0]}'')]\<close>
    by (simp add: example_shared_extras_def example_defs)
  from single shared show ?thesis by blast
qed

section \<open>The number of LOD levels after a merge\<close>

lemma ParseExtensionMSFTLod_no_extension:
  "extensions n EXTENSION_MSFT_LOD = None \<Longrightarrow> ParseExtensionMSFTLod rj n = Inr []"
  by (simp add: ParseExtensionMSFTLod_def)

lemma FindMember_ids_object:
  "FindMember (ids_object idxs) MSFT_LOD_IDS_KEY = Inr (Some (JArray (map (\<lambda>i. JInt (int i)) idxs)))"
  by (simp add: FindMember_def ids_object_def)

lemma mapE_length: "mapE f xs = Inr ys \<Longrightarrow> length ys = length xs"
  by (auto simp: mapE_Inr_iff dest: list_all2_lengthD)

lemma ParseExtensionMSFTLod_ids:
  assumes "extensions n EXTENSION_MSFT_LOD = Some (WriterGetString rj (ids_object idxs))"
    and "CreateDocumentFromString rj (WriterGetString rj (ids_object idxs)) = Some (ids_object idxs)"
    and "ParseExtensionMSFTLod rj n = Inr chain"
  shows "length chain = length idxs"
  using assms mapE_length [of _ "map (\<lambda>i. JInt (int i)) idxs" chain]
  by (simp add: ParseExtensionMSFTLod_def FindMember_ids_object)

lemma LODMap_emplace_new: "k \<notin> fst ` set m \<Longrightarrow> LODMap_emplace m k chain = m @ [(k, chain)]"
  by (simp add: LODMap_emplace_def map_of_eq_None_iff)

lemma ParseDocumentNodeLODs_loop_Inr:
  assumes "ParseDocumentNodeLODs_loop rj ns m = Inr m'"
    and "distinct (map fst m @ map id' ns)"
  shows "\<exists>chains. list_all2 (\<lambda>n chain. ParseExtensionMSFTLod rj n = Inr chain) ns chains \<and>
           m' = m @ zip (map id' ns) chains"
  using assms
proof (induction ns arbitrary: m)
  case Nil
  then show ?case by simp
next
  case (Cons n ns)
  from Cons.prems(1) obtain chain where c: "ParseExtensionMSFTLod rj n = Inr chain"
    and r: "ParseDocumentNodeLODs_loop rj ns (LODMap_emplace m (id' n) chain) = Inr m'"
    by (auto simp: thenE_Inr_iff)
  from Cons.prems(2) have new: "id' n \<notin> fst ` set m" by auto
  with r have r': "ParseDocumentNodeLODs_loop rj ns (m @ [(id' n, chain)]) = Inr m'"
    by (simp add: LODMap_emplace_new)
  from Cons.prems(2) have "distinct (map fst (m @ [(id' n, chain)]) @ map id' ns)" by auto
  from Cons.IH [OF r' this] obtain chains where
    "list_all2 (\<lambda>n chain. ParseExtensionMSFTLod rj n = Inr chain) ns chains"
    "m' = (m @ [(id' n, chain)]) @ zip (map id' ns) chains"
    by blast
  with c show ?case
    by (intro exI [of _ "chain # chains"]) simp
qed

lemma ParseDocumentNodeLODs_Inr:
  assumes "ParseDocumentNodeLODs rj doc = Inr lods" and "distinct (map id' (nodes doc))"
  shows "\<exists>chains. list_all2 (\<lambda>n chain. ParseExtensionMSFTLod rj n = Inr chain) (nodes doc) chains \<and>
           lods = zip (map id' (nodes doc)) chains"
  using ParseDocumentNodeLODs_loop_Inr [of rj "nodes doc" "[]" lods] assms
  by (simp add: ParseDocumentNodeLODs_def)

lemma NumberOfNodeLODLevels_loop_max:
  assumes "\<forall>n \<in> set ns. \<exists>chain. LODMap_at lods (id' n) = Inr chain \<and> length chain \<le> L"
    and "m \<le> L"
    and "m = L \<or> (\<exists>n \<in> set ns. \<exists>chain. LODMap_at lods (id' n) = Inr chain \<and> length chain = L)"
  shows "NumberOfNodeLODLevels_loop lods ns m = Inr L"
  using assms
proof (induction ns arbitrary: m)
  case Nil
  then show ?case by simp
next
  case (Cons n ns)
  from Cons.prems(1) obtain chain where c: "LODMap_at lods (id' n) = Inr chain" "length chain \<le> L"
    by auto
  have "NumberOfNodeLODLevels_loop lods ns (max m (length chain)) = Inr L"
  proof (rule Cons.IH)
    show "\<forall>n \<in> set ns. \<exists>chain. LODMap_at lods (id' n) = Inr chain \<and> length chain \<le> L"
      using Cons.prems(1) by simp
    show "max m (length chain) \<le> L" using Cons.prems(2) c(2) by simp
    show "max m (length chain) = L \<or>
        (\<exists>n \<in> set ns. \<exists>chain. LODMap_at lods (id' n) = Inr chain \<and> length chain = L)"
      using Cons.prems(2,3) c by auto
  qed
  with c show ?case by simp
qed


lemma Append_distinct:
  assumes "Append c e = Inr c'" and "distinct (map id' c)"
  shows "distinct (map id' c')"
proof -
  from assms(1) have "c' = c @ [e]" and "\<not> Has c (id' e)"
    by (auto simp: Append_def split: if_splits)
  then have "c' = c @ [e]" and "id' e \<notin> id' ` set c"
    by (auto simp: Has_def)
  with assms(2) show ?thesis by simp
qed

lemma AppendAll_distinct:
  "AppendAll f c xs = Inr c' \<Longrightarrow> distinct (map id' c) \<Longrightarrow> distinct (map id' c')"
proof (induction xs arbitrary: c)
  case Nil
  then show ?case by simp
next
  case (Cons x xs)
  from Cons.prems(1) obtain y c1 where "Append c y = Inr c1" "AppendAll f c1 xs = Inr c'"
    by (auto simp: thenE_Inr_iff)
  with Cons.IH [of c1] Append_distinct [of c y c1] Cons.prems(2) show ?case by blast
qed

lemma offsetNode_extensions:
  "offsetNode l a b x = Inr y \<Longrightarrow> extensions y = extensions x"
  by (auto simp: offsetNode_def thenE_Inr_iff)

lemma mergeCollections_nodes:
  assumes "mergeCollections rj primary lod lvl = Inr g"
  shows "\<exists>l a b. AppendAll (offsetNode l a b) (nodes primary) (nodes lod) = Inr (nodes g)"
proof -
  from assms obtain nds l a b where
    nd: "AppendAll (offsetNode l a b) (nodes primary) (nodes lod) = Inr nds" and
    g: "\<exists>bs ss bvs acs ims txs mts mss used. g = primary\<lparr>buffers := bs, samplers := ss, bufferViews := bvs, accessors := acs,
               images := ims, textures := txs, materials := mts, meshes := mss,
               nodes := nds, extensionsUsed := used\<rparr>"
    unfolding mergeCollections_def Let_def thenE_Inr_iff by blast
  from g have "nodes g = nds" by auto
  with nd show ?thesis by blast
qed

lemma mergeCollections_nodes_inv:
  assumes "mergeCollections rj primary lod lvl = Inr g"
    and "distinct (map id' (nodes primary))"
    and "\<forall>n \<in> set (nodes primary). extensions n EXTENSION_MSFT_LOD = None"
    and "\<forall>n \<in> set (nodes lod). extensions n EXTENSION_MSFT_LOD = None"
  shows "distinct (map id' (nodes g))"
    and "\<forall>n \<in> set (nodes g). extensions n EXTENSION_MSFT_LOD = None"
proof -
  from mergeCollections_nodes [OF assms(1)] obtain l a b where
    nd: "AppendAll (offsetNode l a b) (nodes primary) (nodes lod) = Inr (nodes g)" by blast
  from AppendAll_distinct [OF nd assms(2)] show "distinct (map id' (nodes g))" .
  from AppendAll_Inr [OF nd] obtain ys where ys: "nodes g = nodes primary @ ys"
    "list_all2 (\<lambda>x y. offsetNode l a b x = Inr y) (nodes lod) ys" by blast
  have "extensions y EXTENSION_MSFT_LOD = None" if "y \<in> set ys" for y
  proof -
    from that obtain i where i: "i < length ys" "y = ys ! i"
      by (auto simp: in_set_conv_nth)
    with ys(2) have "i < length (nodes lod)" "offsetNode l a b (nodes lod ! i) = Inr y"
      by (auto simp: list_all2_conv_all_nth)
    then obtain x where "x \<in> set (nodes lod)" "offsetNode l a b x = Inr y"
      using nth_mem by blast
    with assms(4) offsetNode_extensions [of l a b x y] show ?thesis by simp
  qed
  with assms(3) ys(1) show "\<forall>n \<in> set (nodes g). extensions n EXTENSION_MSFT_LOD = None"
    by auto
qed

lemma checkScenes_root_key:
  assumes "checkScenes primary lods lod = Inr lvl"
  shows "\<exists>r \<in> set (concat (map scene_nodes (scenes primary))). map_of lods r \<noteq> None"
proof -
  from checkScenes_Inr [OF assms] obtain p ps l ls where
    ps: "scenes primary = p # ps" and ls: "scenes lod = l # ls"
    by (cases "scenes primary"; cases "scenes lod") auto
  from assms ps ls obtain r where
    m: "matchScenes (nodes primary) lods ((p, l) # zip ps ls) (False, 0) = Inr r"
    by (auto simp: checkScenes_def thenE_Inr_iff split: if_splits)
  then obtain x xs e chain where "scene_nodes p = x # xs" "Get (nodes primary) x = Inr e"
    "LODMap_at lods (id' e) = Inr chain"
  proof (cases "rootNodesMatch p l")
    case True
    with m that show ?thesis
      by (auto simp: thenE_Inr_iff split: list.splits)
  next
    case False
    with m have "r = (False, 0)" by simp
    with assms ps ls m checkScenes_Inr(1) [OF assms] show ?thesis
      by (simp add: checkScenes_def)
  qed
  with Get_Inr [of "nodes primary" x e] ps show ?thesis
    by (auto simp: LODMap_at_def split: option.splits)
qed


lemma distinct_count_list:
  "distinct xs \<Longrightarrow> count_list xs k = (if k \<in> set xs then 1 else 0)"
  by (induction xs) auto

lemma AddGLTFNodeLOD_inv:
  assumes s: "AddGLTFNodeLOD rj g lods d = (Inr g', lods')"
    and dn: "distinct (map id' (nodes g))"
    and en: "\<forall>n \<in> set (nodes g). extensions n EXTENSION_MSFT_LOD = None"
    and ed: "\<forall>n \<in> set (nodes d). extensions n EXTENSION_MSFT_LOD = None"
    and dk: "distinct (map fst lods)"
    and dr: "distinct (concat (map scene_nodes (scenes g)))"
    and len: "\<forall>(k, chain) \<in> set lods.
                (k \<in> set (concat (map scene_nodes (scenes g))) \<longrightarrow> length chain = i) \<and> (k \<notin> set (concat (map scene_nodes (scenes g))) \<longrightarrow> length chain = 0)"
  shows "scenes g' = scenes g"
    and "distinct (map id' (nodes g'))"
    and "\<forall>n \<in> set (nodes g'). extensions n EXTENSION_MSFT_LOD = None"
    and "map fst lods' = map fst lods"
    and "\<forall>(k, chain) \<in> set lods'.
           (k \<in> set (concat (map scene_nodes (scenes g))) \<longrightarrow> length chain = Suc i) \<and> (k \<notin> set (concat (map scene_nodes (scenes g))) \<longrightarrow> length chain = 0)"
    and "\<exists>r \<in> set (concat (map scene_nodes (scenes g))). r \<in> fst ` set lods"
proof -
  let ?roots = "concat (map scene_nodes (scenes g))"
  from s obtain lvl where c: "checkScenes g lods d = Inr lvl"
    and m: "mergeCollections rj g d lvl = Inr g'"
    by (rule AddGLTFNodeLOD_Inr)
  show "scenes g' = scenes g" using s by (rule AddGLTFNodeLOD_Inr_scenes)
  from mergeCollections_nodes_inv [OF m dn en ed]
  show "distinct (map id' (nodes g'))"
    and "\<forall>n \<in> set (nodes g'). extensions n EXTENSION_MSFT_LOD = None" .
  note R = AddGLTFNodeLOD_Inr_registry [OF s]
  from R show keys: "map fst lods' = map fst lods" by simp
  show "\<forall>(k, chain) \<in> set lods'. (k \<in> set ?roots \<longrightarrow> length chain = Suc i) \<and> (k \<notin> set ?roots \<longrightarrow> length chain = 0)"
  proof (clarify)
    fix k chain' assume kc: "(k, chain') \<in> set lods'"
    from dk keys have "distinct (map fst lods')" by simp
    with kc have m': "map_of lods' k = Some chain'" by simp
    from R obtain added where
      a: "map_of lods' k = map_option (\<lambda>chain. chain @ added) (map_of lods k)"
      and l: "length added = count_list ?roots k"
      by blast
    from a m' obtain chain where ch: "map_of lods k = Some chain" "chain' = chain @ added"
      by (cases "map_of lods k") auto
    from ch(1) have "(k, chain) \<in> set lods" by (rule map_of_SomeD)
    with len have "(k \<in> set ?roots \<longrightarrow> length chain = i) \<and> (k \<notin> set ?roots \<longrightarrow> length chain = 0)"
      by (auto simp del: set_concat)
    with ch(2) l distinct_count_list [OF dr, of k]
    show "(k \<in> set ?roots \<longrightarrow> length chain' = Suc i) \<and> (k \<notin> set ?roots \<longrightarrow> length chain' = 0)" by simp
  qed
  from checkScenes_root_key [OF c]
  show "\<exists>r \<in> set ?roots. r \<in> fst ` set lods"
    by (auto simp: map_of_eq_None_iff)
qed

lemma mergeLoop_Cons:
  "mergeLoop rj (g, lods) (d # ds) = Inr r \<Longrightarrow>
     \<exists>g1 lods1. AddGLTFNodeLOD rj g lods d = (Inr g1, lods1) \<and> mergeLoop rj (g1, lods1) ds = Inr r"
  by (auto simp: mergeStep_def split: prod.splits sum.splits option.splits)

lemma mergeLoop_inv:
  assumes "mergeLoop rj (g, lods) ds = Inr (g', lods')"
    and "distinct (map id' (nodes g))"
    and "\<forall>n \<in> set (nodes g). extensions n EXTENSION_MSFT_LOD = None"
    and "\<forall>d \<in> set ds. \<forall>n \<in> set (nodes d). extensions n EXTENSION_MSFT_LOD = None"
    and "distinct (map fst lods)"
    and "distinct (concat (map scene_nodes (scenes g)))"
    and "\<forall>(k, chain) \<in> set lods.
                (k \<in> set (concat (map scene_nodes (scenes g))) \<longrightarrow> length chain = i) \<and> (k \<notin> set (concat (map scene_nodes (scenes g))) \<longrightarrow> length chain = 0)"
  shows "scenes g' = scenes g \<and>
     distinct (map id' (nodes g')) \<and>
     (\<forall>n \<in> set (nodes g'). extensions n EXTENSION_MSFT_LOD = None) \<and>
     map fst lods' = map fst lods \<and>
     (\<forall>(k, chain) \<in> set lods'.
           (k \<in> set (concat (map scene_nodes (scenes g))) \<longrightarrow> length chain = i + length ds) \<and> (k \<notin> set (concat (map scene_nodes (scenes g))) \<longrightarrow> length chain = 0)) \<and>
     (ds \<noteq> [] \<longrightarrow> (\<exists>r \<in> set (concat (map scene_nodes (scenes g))). r \<in> fst ` set lods))"
  using assms
proof (induction ds arbitrary: g lods i)
  case Nil
  then show ?case by (auto simp del: set_concat)
next
  case (Cons d ds)
  from mergeLoop_Cons [OF Cons.prems(1)] obtain g1 lods1 where
    s: "AddGLTFNodeLOD rj g lods d = (Inr g1, lods1)" and r: "mergeLoop rj (g1, lods1) ds = Inr (g', lods')"
    by blast
  from Cons.prems(4) have ed: "\<forall>n \<in> set (nodes d). extensions n EXTENSION_MSFT_LOD = None"
    and eds: "\<forall>d \<in> set ds. \<forall>n \<in> set (nodes d). extensions n EXTENSION_MSFT_LOD = None"
    by auto
  note S = AddGLTFNodeLOD_inv [OF s Cons.prems(2) Cons.prems(3) ed Cons.prems(5) Cons.prems(6) Cons.prems(7)]
  have "scenes g' = scenes g1 \<and>
     distinct (map id' (nodes g')) \<and>
     (\<forall>n \<in> set (nodes g'). extensions n EXTENSION_MSFT_LOD = None) \<and>
     map fst lods' = map fst lods1 \<and>
     (\<forall>(k, chain) \<in> set lods'.
           (k \<in> set (concat (map scene_nodes (scenes g1))) \<longrightarrow> length chain = Suc i + length ds) \<and> (k \<notin> set (concat (map scene_nodes (scenes g1))) \<longrightarrow> length chain = 0)) \<and>
     (ds \<noteq> [] \<longrightarrow> (\<exists>r \<in> set (concat (map scene_nodes (scenes g1))). r \<in> fst ` set lods1))"
  proof (rule Cons.IH [OF r])
    show "distinct (map id' (nodes g1))" by (rule S(2))
    show "\<forall>n \<in> set (nodes g1). extensions n EXTENSION_MSFT_LOD = None" by (rule S(3))
    show "\<forall>d \<in> set ds. \<forall>n \<in> set (nodes d). extensions n EXTENSION_MSFT_LOD = None" by (rule eds)
    show "distinct (map fst lods1)" using S(4) Cons.prems(5) by simp
    show "distinct (concat (map scene_nodes (scenes g1)))" using S(1) Cons.prems(6) by simp
    show "\<forall>(k, chain) \<in> set lods1.
        (k \<in> set (concat (map scene_nodes (scenes g1))) \<longrightarrow> length chain = Suc i) \<and> (k \<notin> set (concat (map scene_nodes (scenes g1))) \<longrightarrow> length chain = 0)"
      using S(5) S(1) by (auto simp del: set_concat)
  qed
  with S(1) S(4) S(6) show ?case by (auto simp del: set_concat)
qed


lemma SerializeExtensionMSFTLod_Inr:
  assumes "SerializeExtensionMSFTLod rj KNode chain g = Inr v" and "chain \<noteq> []"
  shows "\<exists>idxs. v = WriterGetString rj (ids_object idxs) \<and> length idxs = length chain \<and>
           (\<forall>i \<in> set idxs. i < length (nodes g))"
proof -
  from assms obtain idxs where m: "mapE (GetIndex (nodes g)) chain = Inr idxs"
    and v: "v = WriterGetString rj (ids_object idxs)"
    by (auto simp: SerializeExtensionMSFTLod_def thenE_Inr_iff)
  have "i < length (nodes g)" if "i \<in> set idxs" for i
  proof -
    from that obtain j where j: "j < length idxs" "i = idxs ! j"
      by (auto simp: in_set_conv_nth)
    with m have "GetIndex (nodes g) (chain ! j) = Inr i"
      by (auto simp: mapE_Inr_iff list_all2_conv_all_nth)
    then show ?thesis by (auto dest: GetIndex_Inr)
  qed
  with m v show ?thesis by (auto dest: mapE_length)
qed

lemma flushLods_inv:
  fixes Q :: "Node \<Rightarrow> bool"
  assumes "flushLods rj g lods = Inr gF"
    and "\<forall>n \<in> set (nodes g). extensions n EXTENSION_MSFT_LOD = None \<or> Q n"
    and "\<forall>(k, chain) \<in> set lods. chain = [] \<or> length chain = L"
    and "length (nodes g) = B"
    and w: "\<forall>idxs. WriterGetString rj (ids_object idxs) \<noteq> []"
    and upd: "\<And>n idxs. length idxs = L \<Longrightarrow> \<forall>i \<in> set idxs. i < B \<Longrightarrow>
        extensions n EXTENSION_MSFT_LOD = None \<or> Q n \<Longrightarrow>
        Q (n\<lparr>extensions := extensions_emplace (extensions n) EXTENSION_MSFT_LOD
                (WriterGetString rj (ids_object idxs))\<rparr>)"
  shows "map id' (nodes gF) = map id' (nodes g) \<and>
     (\<forall>n \<in> set (nodes gF). extensions n EXTENSION_MSFT_LOD = None \<or> Q n) \<and>
     (((\<exists>n \<in> set (nodes g). Q n) \<or> (\<exists>(k, chain) \<in> set lods. chain \<noteq> [])) \<longrightarrow>
        (\<exists>n \<in> set (nodes gF). Q n))"
  using assms(1,2,3,4)
proof (induction lods arbitrary: g)
  case Nil
  then show ?case by auto
next
  case (Cons a lods)
  obtain k chain where a: "a = (k, chain)" by (cases a)
  from Cons.prems(3) have rest: "\<forall>(k, chain) \<in> set lods. chain = [] \<or> length chain = L"
    by auto
  show ?case
  proof (cases "chain = []")
    case True
    with Cons.prems(1) a have "flushLods rj g lods = Inr gF" by simp
    from Cons.IH [OF this Cons.prems(2) rest Cons.prems(4)] True a show ?thesis by auto
  next
    case False
    with Cons.prems(3) a have len: "length chain = L" by auto
    from Cons.prems(1) a False obtain n v where n: "Get (nodes g) k = Inr n"
      and v: "SerializeExtensionMSFTLod rj KNode chain g = Inr v"
      and r: "(if v \<noteq> [] then
                 thenE (Replace (nodes g)
                     (n\<lparr>extensions := extensions_emplace (extensions n) EXTENSION_MSFT_LOD v\<rparr>))
                   (\<lambda>ns. flushLods rj (g\<lparr>nodes := ns\<rparr>) lods)
               else flushLods rj g lods) = Inr gF"
      by (auto simp: thenE_Inr_iff)
    from SerializeExtensionMSFTLod_Inr [OF v False] len Cons.prems(4) obtain idxs where
      idxs: "v = WriterGetString rj (ids_object idxs)" "length idxs = L" "\<forall>i \<in> set idxs. i < B"
      by auto
    with w have "v \<noteq> []" by simp
    let ?n' = "n\<lparr>extensions := extensions_emplace (extensions n) EXTENSION_MSFT_LOD v\<rparr>"
    from r \<open>v \<noteq> []\<close> obtain ns1 where ns1: "Replace (nodes g) ?n' = Inr ns1"
      and f: "flushLods rj (g\<lparr>nodes := ns1\<rparr>) lods = Inr gF"
      by (auto simp: thenE_Inr_iff)
    from Get_Inr [OF n] have "n \<in> set (nodes g)" by simp
    with Cons.prems(2) have "extensions n EXTENSION_MSFT_LOD = None \<or> Q n" by simp
    from upd [OF idxs(2,3) this] idxs(1) have qn': "Q ?n'" by simp
    from ns1 obtain i where i: "ns1 = (nodes g)[i := ?n']" "i < length (nodes g)"
      by (rule Replace_Inr)
    have all1: "\<forall>m \<in> set (nodes (g\<lparr>nodes := ns1\<rparr>)). extensions m EXTENSION_MSFT_LOD = None \<or> Q m"
    proof
      fix m assume "m \<in> set (nodes (g\<lparr>nodes := ns1\<rparr>))"
      with i have "m \<in> insert ?n' (set (nodes g))"
        using set_update_subset_insert [of "nodes g" i ?n'] by auto
      with qn' Cons.prems(2) show "extensions m EXTENSION_MSFT_LOD = None \<or> Q m" by auto
    qed
    from i have "?n' \<in> set ns1" by (simp add: set_update_memI)
    with qn' have ex1: "\<exists>m \<in> set (nodes (g\<lparr>nodes := ns1\<rparr>)). Q m" by auto
    from i Cons.prems(4) have b1: "length (nodes (g\<lparr>nodes := ns1\<rparr>)) = B" by simp
    from Cons.IH [OF f all1 rest b1] ex1 Replace_ids [OF ns1] show ?thesis by auto
  qed
qed

lemma GetInt_index: "int i \<le> INT_MAX \<Longrightarrow> GetInt (JInt (int i)) = Inr (int i)"
  by (simp add: GetInt_def INT_MIN_def)

lemma ParseExtensionMSFTLod_ids_Inr:
  assumes "extensions n EXTENSION_MSFT_LOD = Some (WriterGetString rj (ids_object idxs))"
    and "CreateDocumentFromString rj (WriterGetString rj (ids_object idxs)) = Some (ids_object idxs)"
    and "\<forall>i \<in> set idxs. int i \<le> INT_MAX"
  shows "ParseExtensionMSFTLod rj n = Inr (map to_string idxs)"
proof -
  have "mapE (\<lambda>a. thenE (GetInt a) (\<lambda>i. Inr (to_string_int i))) (map (\<lambda>i. JInt (int i)) idxs)
      = Inr (map to_string idxs)"
    using assms(3)
    by (induction idxs) (simp_all add: GetInt_index to_string_int_def)
  with assms(1,2) show ?thesis
    by (simp add: ParseExtensionMSFTLod_def FindMember_ids_object)
qed

lemma ParseDocumentNodeLODs_loop_total:
  "\<forall>n \<in> set ns. \<exists>chain. ParseExtensionMSFTLod rj n = Inr chain \<Longrightarrow>
     \<exists>m'. ParseDocumentNodeLODs_loop rj ns m = Inr m'"
proof (induction ns arbitrary: m)
  case Nil
  then show ?case by simp
next
  case (Cons n ns)
  from Cons.prems obtain chain where c: "ParseExtensionMSFTLod rj n = Inr chain" by auto
  from Cons.prems Cons.IH [of "LODMap_emplace m (id' n) chain"] c show ?case by simp
qed


lemma split_on_nonempty: "split_on c s \<noteq> []"
  by (induction s) (auto split: list.splits)

lemma split_on_append:
  "c \<notin> set p \<Longrightarrow> split_on c (p @ s) = (p @ hd (split_on c s)) # tl (split_on c s)"
proof (induction p)
  case Nil
  then show ?case using split_on_nonempty [of c s] by simp
next
  case (Cons a p)
  then show ?case by (auto split: list.splits)
qed

lemma split_on_no_separator: "c \<notin> set p \<Longrightarrow> split_on c p = [p]"
  using split_on_append [of c p "[]"] by simp

lemma split_on_intercalate:
  "ps \<noteq> [] \<Longrightarrow> \<forall>p \<in> set ps. c \<notin> set p \<Longrightarrow> split_on c (intercalate [c] ps) = ps"
proof (induction "[c]" ps rule: intercalate.induct)
  case 1
  then show ?case by simp
next
  case (2 x)
  then show ?case by (simp add: split_on_no_separator)
next
  case (3 x y ys)
  then show ?case by (simp add: split_on_append)
qed

lemma intercalate_nonempty:
  "ps \<noteq> [] \<Longrightarrow> \<forall>p \<in> set ps. p \<noteq> [] \<Longrightarrow> intercalate sep ps \<noteq> []"
  by (induction sep ps rule: intercalate.induct) auto

lemma json_text_ids_object:
  "json_text (ids_object idxs) = ids_prefix @ intercalate '','' (map to_string idxs) @ ids_suffix"
proof -
  have "json_text \<circ> (\<lambda>i. JInt (int i)) = to_string"
    by (rule ext) (simp add: to_string_int_def)
  then show ?thesis
    by (simp add: ids_object_def MSFT_LOD_IDS_KEY_def quoted_def ids_prefix_def ids_suffix_def)
qed

lemma read_ids_wrap:
  "read_ids (ids_prefix @ body @ ids_suffix) =
     (if body = [] then Some (ids_object [])
      else if list_all (\<lambda>p. p \<noteq> [] \<and> list_all isdigit p) (split_on CHR '','' body)
      then Some (ids_object (map digits_val (split_on CHR '','' body)))
      else None)"
  by (simp add: read_ids_def Let_def ids_prefix_def ids_suffix_def)

lemma to_string_no_comma: "CHR '','' \<notin> set (to_string n)"
  using to_string_digits [of "CHR '',''" n] by (auto simp: isdigit_def)

lemma example_json_round_trip:
  "WriterGetString example_json (ids_object idxs) \<noteq> [] \<and>
   CreateDocumentFromString example_json (WriterGetString example_json (ids_object idxs))
     = Some (ids_object idxs)"
proof -
  let ?body = "intercalate '','' (map to_string idxs)"
  have ne: "json_text (ids_object idxs) \<noteq> []"
    by (simp add: json_text_ids_object ids_prefix_def)
  have "read_ids (ids_prefix @ ?body @ ids_suffix) = Some (ids_object idxs)"
  proof (cases "idxs = []")
    case True
    then show ?thesis using read_ids_wrap [of "[]"] by simp
  next
    case False
    then have b: "?body \<noteq> []"
      by (intro intercalate_nonempty) (simp_all add: to_string_nonempty)
    from False have s: "split_on CHR '','' ?body = map to_string idxs"
      by (intro split_on_intercalate) (simp_all add: to_string_no_comma)
    have d: "list_all (\<lambda>p. p \<noteq> [] \<and> list_all isdigit p) (map to_string idxs)"
      by (simp add: list_all_iff to_string_nonempty to_string_digits)
    have "map digits_val (map to_string idxs) = idxs"
      by (simp add: digits_val_to_string comp_def)
    with b s d show ?thesis by (simp add: read_ids_wrap)
  qed
  with ne show ?thesis
    by (simp add: example_json_def json_text_ids_object)
qed


lemma MergeDocumentsAsLODs_Inr:
  assumes "MergeDocumentsAsLODs rj docs = Inr merged"
  obtains d0 rest lods0 g lods1 where "docs = d0 # rest"
    and "ParseDocumentNodeLODs rj d0 = Inr lods0"
    and "mergeLoop rj (d0, lods0) rest = Inr (g, lods1)"
    and "flushLods rj g lods1 = Inr merged"
  using assms
  by (cases docs) (auto simp: MergeDocumentsAsLODs_def thenE_Inr_iff)

lemma registry_without_extensions:
  assumes "ParseDocumentNodeLODs rj doc = Inr lods" and "distinct (map id' (nodes doc))"
    and "\<forall>n \<in> set (nodes doc). extensions n EXTENSION_MSFT_LOD = None"
  shows "map fst lods = map id' (nodes doc)" and "\<forall>(k, chain) \<in> set lods. chain = []"
proof -
  from ParseDocumentNodeLODs_Inr [OF assms(1,2)] obtain chains where
    c: "list_all2 (\<lambda>n chain. ParseExtensionMSFTLod rj n = Inr chain) (nodes doc) chains"
    and l: "lods = zip (map id' (nodes doc)) chains"
    by blast
  from c have len: "length chains = length (nodes doc)" by (simp add: list_all2_lengthD)
  with l show "map fst lods = map id' (nodes doc)" by simp
  show "\<forall>(k, chain) \<in> set lods. chain = []"
  proof (clarify)
    fix k chain assume "(k, chain) \<in> set lods"
    with l have "chain \<in> set chains" by (auto dest: set_zip_rightD)
    then obtain j where j: "j < length chains" "chain = chains ! j"
      by (auto simp: in_set_conv_nth)
    with c len have "ParseExtensionMSFTLod rj (nodes doc ! j) = Inr chain"
      by (simp add: list_all2_conv_all_nth)
    moreover from j len assms(3) have "extensions (nodes doc ! j) EXTENSION_MSFT_LOD = None"
      by simp
    ultimately show "chain = []" by (simp add: ParseExtensionMSFTLod_no_extension)
  qed
qed

text \<open>
  Claim C4, as the code has it. Take a list of documents none of whose nodes carries the
  LOD extension, where the ids of the nodes of the first document are distinct (as they
  are in a container) and no node is listed twice among the root nodes of its scenes.
  When \<open>MergeDocumentsAsLODs\<close> returns a document, the registry can be derived from that
  document and \<open>NumberOfNodeLODLevels\<close> with that registry returns the number of documents
  minus one. The JSON library is assumed to read back the payload it writes for the LOD
  extension and never to write a payload as the empty text; the number of documents fits
  \<^verbatim>\<open>uint32_t\<close> and the position of every node fits \<^verbatim>\<open>int\<close>.
\<close>

theorem MergeDocumentsAsLODs_levels:
  assumes ok: "MergeDocumentsAsLODs rj docs = Inr merged"
    and noext: "\<forall>d \<in> set docs. \<forall>n \<in> set (nodes d). extensions n EXTENSION_MSFT_LOD = None"
    and ids: "distinct (map id' (nodes (hd docs)))"
    and roots: "distinct (concat (map scene_nodes (scenes (hd docs))))"
    and json: "\<forall>idxs. WriterGetString rj (ids_object idxs) \<noteq> [] \<and>
        CreateDocumentFromString rj (WriterGetString rj (ids_object idxs)) = Some (ids_object idxs)"
    and n: "length docs \<le> 2 ^ 32"
    and size: "length (nodes merged) \<le> 2 ^ 31"
  shows "countLODLevels rj merged = Inr (length docs - 1)"
proof -
  from ok obtain d0 rest lods0 g lods1 where docs: "docs = d0 # rest"
    and p0: "ParseDocumentNodeLODs rj d0 = Inr lods0"
    and ml: "mergeLoop rj (d0, lods0) rest = Inr (g, lods1)"
    and fl: "flushLods rj g lods1 = Inr merged"
    by (rule MergeDocumentsAsLODs_Inr)
  define L where "L = length rest"
  define B where "B = length (nodes g)"
  define Q where "Q m \<longleftrightarrow> (\<exists>idxs. extensions m EXTENSION_MSFT_LOD = Some (WriterGetString rj (ids_object idxs)) \<and>
      length idxs = L \<and> (\<forall>i \<in> set idxs. i < B))" for m :: Node
  let ?roots = "concat (map scene_nodes (scenes d0))"
  from noext docs have e0: "\<forall>n \<in> set (nodes d0). extensions n EXTENSION_MSFT_LOD = None"
    and er: "\<forall>d \<in> set rest. \<forall>n \<in> set (nodes d). extensions n EXTENSION_MSFT_LOD = None"
    by auto
  from ids docs have d0: "distinct (map id' (nodes d0))" by simp
  from roots docs have dr: "distinct ?roots" by simp
  note R0 = registry_without_extensions [OF p0 d0 e0]
  from R0(1) d0 have dk: "distinct (map fst lods0)" by simp
  from R0(2) have len0: "\<forall>(k, chain) \<in> set lods0.
      (k \<in> set ?roots \<longrightarrow> length chain = 0) \<and> (k \<notin> set ?roots \<longrightarrow> length chain = 0)"
    by auto
  from mergeLoop_inv [OF ml d0 e0 er dk dr len0]
  have dg: "distinct (map id' (nodes g))"
    and eg: "\<forall>n \<in> set (nodes g). extensions n EXTENSION_MSFT_LOD = None"
    and keys: "map fst lods1 = map fst lods0"
    and len1: "\<forall>(k, chain) \<in> set lods1.
        (k \<in> set ?roots \<longrightarrow> length chain = L) \<and> (k \<notin> set ?roots \<longrightarrow> length chain = 0)"
    and rk: "rest \<noteq> [] \<longrightarrow> (\<exists>r \<in> set ?roots. r \<in> fst ` set lods0)"
    by (auto simp del: set_concat simp: L_def)
  have F: "map id' (nodes merged) = map id' (nodes g) \<and>
     (\<forall>n \<in> set (nodes merged). extensions n EXTENSION_MSFT_LOD = None \<or> Q n) \<and>
     (((\<exists>n \<in> set (nodes g). Q n) \<or> (\<exists>(k, chain) \<in> set lods1. chain \<noteq> [])) \<longrightarrow>
        (\<exists>n \<in> set (nodes merged). Q n))"
  proof (rule flushLods_inv [OF fl])
    show "\<forall>n \<in> set (nodes g). extensions n EXTENSION_MSFT_LOD = None \<or> Q n"
      using eg by simp
    show "\<forall>(k, chain) \<in> set lods1. chain = [] \<or> length chain = L"
      using len1 by (auto simp del: set_concat)
    show "length (nodes g) = B" by (simp add: B_def)
    show "\<forall>idxs. WriterGetString rj (ids_object idxs) \<noteq> []" using json by simp
    fix m :: Node and idxs :: "nat list"
    assume "length idxs = L" and "\<forall>i \<in> set idxs. i < B"
      and "extensions m EXTENSION_MSFT_LOD = None \<or> Q m"
    then show "Q (m\<lparr>extensions := extensions_emplace (extensions m) EXTENSION_MSFT_LOD
                (WriterGetString rj (ids_object idxs))\<rparr>)"
      by (auto simp: Q_def extensions_emplace_def)
  qed
  from F dg have dm: "distinct (map id' (nodes merged))" by simp
  from F have "length (nodes merged) = B"
    unfolding B_def by (metis length_map)
  with size have B: "B \<le> 2 ^ 31" by simp
  have parse: "ParseExtensionMSFTLod rj m = Inr chain \<longrightarrow> length chain = (if Q m then L else 0)"
    and total: "\<exists>chain. ParseExtensionMSFTLod rj m = Inr chain"
    if "m \<in> set (nodes merged)" for m chain
  proof -
    show "\<exists>chain. ParseExtensionMSFTLod rj m = Inr chain"
    proof (cases "Q m")
      case True
      then obtain idxs where i: "extensions m EXTENSION_MSFT_LOD = Some (WriterGetString rj (ids_object idxs))"
        "\<forall>i \<in> set idxs. i < B" by (auto simp: Q_def)
      from i(2) B have "\<forall>i \<in> set idxs. int i \<le> INT_MAX"
        by (auto simp: INT_MAX_def)
      from ParseExtensionMSFTLod_ids_Inr [OF i(1) _ this] json show ?thesis by blast
    next
      case False
      with F that have "extensions m EXTENSION_MSFT_LOD = None" by auto
      then show ?thesis by (simp add: ParseExtensionMSFTLod_no_extension)
    qed
    show "ParseExtensionMSFTLod rj m = Inr chain \<longrightarrow> length chain = (if Q m then L else 0)"
    proof (cases "Q m")
      case True
      then obtain idxs where "extensions m EXTENSION_MSFT_LOD = Some (WriterGetString rj (ids_object idxs))"
        "length idxs = L" by (auto simp: Q_def)
      with ParseExtensionMSFTLod_ids [of m rj idxs chain] json True show ?thesis by simp
    next
      case False
      with F that have "extensions m EXTENSION_MSFT_LOD = None" by auto
      with False show ?thesis by (simp add: ParseExtensionMSFTLod_no_extension)
    qed
  qed
  from ParseDocumentNodeLODs_loop_total [of "nodes merged" rj "[]"] total
  obtain lods where reg: "ParseDocumentNodeLODs rj merged = Inr lods"
    by (auto simp: ParseDocumentNodeLODs_def)
  from ParseDocumentNodeLODs_Inr [OF reg dm] obtain chains where
    c: "list_all2 (\<lambda>n chain. ParseExtensionMSFTLod rj n = Inr chain) (nodes merged) chains"
    and l: "lods = zip (map id' (nodes merged)) chains"
    by blast
  from c have lenc: "length chains = length (nodes merged)" by (simp add: list_all2_lengthD)
  have at: "LODMap_at lods (id' (nodes merged ! j)) = Inr (chains ! j) \<and>
            ParseExtensionMSFTLod rj (nodes merged ! j) = Inr (chains ! j)"
    if "j < length (nodes merged)" for j
  proof -
    from that lenc dm have "map_of (zip (map id' (nodes merged)) chains) (map id' (nodes merged) ! j) = Some (chains ! j)"
      by (intro map_of_zip_nth) simp_all
    with that l c lenc show ?thesis
      by (simp add: LODMap_at_def list_all2_conv_all_nth)
  qed
  have "NumberOfNodeLODLevels_loop lods (nodes merged) 0 = Inr L"
  proof (rule NumberOfNodeLODLevels_loop_max)
    show "\<forall>m \<in> set (nodes merged). \<exists>chain. LODMap_at lods (id' m) = Inr chain \<and> length chain \<le> L"
    proof
      fix m assume m: "m \<in> set (nodes merged)"
      then obtain j where j: "j < length (nodes merged)" "m = nodes merged ! j"
        by (auto simp: in_set_conv_nth)
      from at [OF j(1)] j(2) parse [OF m, of "chains ! j"]
      show "\<exists>chain. LODMap_at lods (id' m) = Inr chain \<and> length chain \<le> L"
        by auto
    qed
    show "0 \<le> L" by simp
    show "0 = L \<or> (\<exists>m \<in> set (nodes merged). \<exists>chain. LODMap_at lods (id' m) = Inr chain \<and> length chain = L)"
    proof (cases "rest = []")
      case True
      then show ?thesis by (simp add: L_def)
    next
      case False
      with rk obtain r where r: "r \<in> set ?roots" "r \<in> fst ` set lods0" by blast
      from r(2) keys have "r \<in> fst ` set lods1" by (metis set_map)
      then obtain chain where rc: "(r, chain) \<in> set lods1" by auto
      with len1 r(1) have "length chain = L" by (auto simp del: set_concat)
      with False have "chain \<noteq> []" by (auto simp: L_def)
      with rc F obtain m where m: "m \<in> set (nodes merged)" "Q m" by blast
      from m(1) obtain j where j: "j < length (nodes merged)" "m = nodes merged ! j"
        by (auto simp: in_set_conv_nth)
      from at [OF j(1)] j(2) parse [OF m(1), of "chains ! j"] m
      show ?thesis by auto
    qed
  qed
  moreover from n docs have "L mod 2 ^ 32 = L" by (simp add: L_def)
  ultimately show ?thesis
    using reg by (simp add: NumberOfNodeLODLevels_def countLODLevels_def docs L_def)
qed


lemmas levels_eval = countLODLevels_def NumberOfNodeLODLevels_def read_ids_def ids_prefix_def
  ids_suffix_def GetInt_def FindMember_def

lemma example_three_registry:
  "thenE (MergeDocumentsAsLODs example_json [example_primary, example_primary, example_primary])
     (ParseDocumentNodeLODs example_json)
   = Inr [(''0'', [''1'', ''2'']), (''1'', []), (''2'', [])]"
  by (simp add: levels_eval merge_eval example_defs)

lemma example_three_nodes:
  "map_sum id (length \<circ> nodes)
     (MergeDocumentsAsLODs example_json [example_primary, example_primary, example_primary]) = Inr 3"
  by (simp add: merge_eval example_defs)

theorem MergeDocumentsAsLODs_levels_witness:
  "thenE (MergeDocumentsAsLODs example_json [example_primary, example_primary, example_primary])
     (countLODLevels example_json) = Inr 2"
proof -
  let ?docs = "[example_primary, example_primary, example_primary]"
  from example_three_nodes obtain merged where
    m: "MergeDocumentsAsLODs example_json ?docs = Inr merged"
    and s: "length (nodes merged) = 3"
    by (cases "MergeDocumentsAsLODs example_json ?docs") auto
  have "countLODLevels example_json merged = Inr (length ?docs - 1)"
  proof (rule MergeDocumentsAsLODs_levels [OF m])
    show "\<forall>d \<in> set ?docs. \<forall>n \<in> set (nodes d). extensions n EXTENSION_MSFT_LOD = None"
      by (simp add: example_defs)
    show "distinct (map id' (nodes (hd ?docs)))" by (simp add: example_defs)
    show "distinct (concat (map scene_nodes (scenes (hd ?docs))))" by (simp add: example_defs)
    show "\<forall>idxs. WriterGetString example_json (ids_object idxs) \<noteq> [] \<and>
        CreateDocumentFromString example_json (WriterGetString example_json (ids_object idxs))
          = Some (ids_object idxs)"
      using example_json_round_trip by blast
    show "length ?docs \<le> 2 ^ 32" by simp
    show "length (nodes merged) \<le> 2 ^ 31" using s by simp
  qed
  with m show ?thesis by simp
qed

text \<open>
  The claim as it is written fails where two scenes share their root node: merging two
  such documents gives two LOD levels, not one.
\<close>

theorem MergeDocumentsAsLODs_shared_root_counterexample:
  "thenE (MergeDocumentsAsLODs example_json [example_shared_root, example_shared_root])
     (countLODLevels example_json) = Inr 2 \<and>
   length [example_shared_root, example_shared_root] - 1 = 1"
  by (simp add: levels_eval merge_eval example_defs)

end
